theory Spec2Isabelle
  imports Complex_Main
begin

section \<open>Data model\<close>

text \<open>
  The orchestrator \<^verbatim>\<open>RAGApplication\<close> of \<^verbatim>\<open>src/core/rag-application.ts\<close> and the
  collaborators it calls. Every collaborator call is an awaited promise that may reject;
  a rejection is a value \<open>Inl e\<close>, and it propagates to the caller as the rejected
  promise of the \<^verbatim>\<open>async\<close> method does. The state that a rejected call leaves behind is
  not tracked: a result is \<open>Inl e\<close> or \<open>Inr (value, state)\<close>.
\<close>

datatype error = SyntaxError string | Rejected string

text \<open>
  A fragment's metadata is a JavaScript object read and written by key. The keys the
  orchestrator touches (\<^verbatim>\<open>source\<close>, \<^verbatim>\<open>uniqueLoaderId\<close>, \<^verbatim>\<open>id\<close>) hold strings; a key that
  is absent reads as \<^verbatim>\<open>undefined\<close>, here \<open>None\<close>.
\<close>

type_synonym Metadata = "string \<rightharpoonup> string"

record Chunk =
  pageContent :: string
  metadata :: Metadata

type_synonym LoaderChunk = Chunk

text \<open>\<^verbatim>\<open>embeddings[index]\<close> past the end of the provider's answer is \<^verbatim>\<open>undefined\<close>: \<open>None\<close>.\<close>

record InsertChunkData = Chunk +
  vector :: "real list option"

text \<open>
  Scores are JavaScript numbers. They are only compared (\<^verbatim>\<open>>\<close> and the sign of a
  difference), so a finite score is modelled by the real number it denotes. (A score
  that is \<^verbatim>\<open>NaN\<close> never passes the filter \<^verbatim>\<open>score > cutoff\<close>.)
\<close>

record ExtractChunkData = Chunk +
  score :: real

text \<open>
  \<^verbatim>\<open>interface BaseDb\<close> (\<^verbatim>\<open>src/interfaces/base-db.ts\<close>): the methods the orchestrator
  calls, over the store's state \<open>'db\<close>.
\<close>

record 'db BaseDb =
  insertChunks :: "InsertChunkData list \<Rightarrow> 'db \<Rightarrow> error + nat \<times> 'db"
  similaritySearch :: "real list \<Rightarrow> int \<Rightarrow> 'db \<Rightarrow> error + ExtractChunkData list"
  getVectorCount :: "'db \<Rightarrow> error + nat"
  deleteKeys :: "string \<Rightarrow> 'db \<Rightarrow> error + bool \<times> 'db"
  reset :: "'db \<Rightarrow> error + 'db"

record BaseEmbeddings =
  embedDocuments :: "string list \<Rightarrow> error + real list list"
  embedQuery :: "string \<Rightarrow> error + real list"
  getDimensions :: nat

record BaseModel =
  model_query :: "string \<Rightarrow> string \<Rightarrow> ExtractChunkData list \<Rightarrow> string option \<Rightarrow> error + string"

type_synonym BaseReranker = "string \<Rightarrow> ExtractChunkData list \<Rightarrow> error + ExtractChunkData list"

text \<open>
  An \<^verbatim>\<open>AsyncGenerator\<close> of \<^verbatim>\<open>LoaderChunk\<close> that ends: it yields a fragment and goes
  on, returns, or throws.
\<close>

datatype 'a AsyncGenerator = Done | Yield 'a "'a AsyncGenerator" | Throw error

primrec fromList :: "'a list \<Rightarrow> 'a AsyncGenerator" where
  "fromList [] = Done"
| "fromList (x # xs) = Yield x (fromList xs)"

record BaseLoader =
  getUniqueId :: string
  loader_init :: "error option"
  getChunks :: "LoaderChunk AsyncGenerator"
  canIncrementallyLoad :: bool

text \<open>
  Modelled from the spec: the cache adapter (\<^verbatim>\<open>interfaces/base-cache.ts\<close> is not among the
  sources). It holds one LoaderRecord \<open>{uniqueLoaderId, chunkCount}\<close> per loader id, with
  the operations \<^verbatim>\<open>hasLoader\<close>, \<^verbatim>\<open>getLoader\<close>, \<^verbatim>\<open>addLoader\<close> (record or update) and
  \<^verbatim>\<open>deleteLoader\<close>. The orchestrator calls \<^verbatim>\<open>getLoader\<close> only after \<^verbatim>\<open>hasLoader\<close>
  answered true; the count 0 that \<open>cache_getLoader\<close> gives for a missing record is
  never read.
\<close>

type_synonym BaseCache = "string \<rightharpoonup> nat"

definition cache_hasLoader :: "BaseCache \<Rightarrow> string \<Rightarrow> bool" where
  "cache_hasLoader c loaderId = (c loaderId \<noteq> None)"

definition cache_getLoader :: "BaseCache \<Rightarrow> string \<Rightarrow> nat" where
  "cache_getLoader c loaderId = (case c loaderId of Some chunkCount \<Rightarrow> chunkCount | None \<Rightarrow> 0)"

definition cache_addLoader :: "BaseCache \<Rightarrow> string \<Rightarrow> nat \<Rightarrow> BaseCache" where
  "cache_addLoader c loaderId chunkCount = c(loaderId \<mapsto> chunkCount)"

definition cache_deleteLoader :: "BaseCache \<Rightarrow> string \<Rightarrow> BaseCache" where
  "cache_deleteLoader c loaderId = c(loaderId := None)"

text \<open>
  The fields of \<^verbatim>\<open>class RAGApplication\<close>. \<open>vectorDb\<close> is the store's interface and
  \<open>dbState\<close> its current state; \<open>embedding\<close> is the process-wide \<^verbatim>\<open>RAGEmbedding\<close>
  singleton; \<open>cleanString\<close> is the imported utility; \<open>console\<close> collects the lines of
  \<^verbatim>\<open>console.warn\<close>; \<open>incrementalHandlers\<close> lists the loader ids for which a handler of
  \<^verbatim>\<open>incrementalChunkAvailable\<close> was registered.
\<close>

record 'db RAGApplication =
  queryTemplate :: string
  searchResultCount :: int
  cache :: "BaseCache option"
  vectorDb :: "'db BaseDb"
  dbState :: 'db
  reranker :: "BaseReranker option"
  model :: BaseModel
  embeddingRelevanceCutOff :: real
  loaders :: "BaseLoader list"
  embedding :: BaseEmbeddings
  cleanString :: "string \<Rightarrow> string"
  console :: "string list"
  incrementalHandlers :: "string list"

record 'db RAGApplicationBuilder =
  builder_getCache :: "BaseCache option"
  builder_getModel :: "BaseModel option"
  builder_getQueryTemplate :: string
  builder_getLoaders :: "BaseLoader list"
  builder_getVectorDb :: "('db BaseDb \<times> 'db) option"
  builder_getReranker :: "BaseReranker option"
  builder_getSearchResultCount :: int
  builder_getEmbeddingRelevanceCutOff :: real
  builder_getEmbeddingModel :: "BaseEmbeddings option"

record AddLoaderReturn =
  entriesAdded :: nat
  uniqueId :: string

record QueryResponse =
  sources :: "string option list"
  result :: string

section \<open>JavaScript built-ins used by the orchestrator\<close>

text \<open>
  \<^verbatim>\<open>Array.prototype.slice(start, end)\<close> for integer arguments: a negative index counts
  from the end of the array.
\<close>

definition slice :: "int \<Rightarrow> int \<Rightarrow> 'a list \<Rightarrow> 'a list" where
  "slice start fin xs =
     (let len = int (length xs);
          k = (if start < 0 then max (len + start) 0 else min start len);
          final = (if fin < 0 then max (len + fin) 0 else min fin len)
      in take (nat (final - k)) (drop (nat k) xs))"

text \<open>
  \<^verbatim>\<open>Array.prototype.sort(compareFn)\<close>: a stable sort; \<open>x\<close> stays before \<open>y\<close> unless
  \<open>compareFn x y\<close> is positive.
\<close>

fun insert_cmp :: "('a \<Rightarrow> 'a \<Rightarrow> real) \<Rightarrow> 'a \<Rightarrow> 'a list \<Rightarrow> 'a list" where
  "insert_cmp compareFn x [] = [x]"
| "insert_cmp compareFn x (y # ys) =
     (if compareFn x y \<le> 0 then x # y # ys else y # insert_cmp compareFn x ys)"

definition sort_cmp :: "('a \<Rightarrow> 'a \<Rightarrow> real) \<Rightarrow> 'a list \<Rightarrow> 'a list" where
  "sort_cmp compareFn xs = foldr (insert_cmp compareFn) xs []"

text \<open>
  A JavaScript \<^verbatim>\<open>Map\<close> keeps its keys in insertion order. \<^verbatim>\<open>set\<close> on a key that is
  present replaces the value and leaves the key where it was first inserted.
\<close>

fun Map_set :: "('k \<times> 'v) list \<Rightarrow> 'k \<Rightarrow> 'v \<Rightarrow> ('k \<times> 'v) list" where
  "Map_set [] k v = [(k, v)]"
| "Map_set ((k', v') # m) k v = (if k' = k then (k, v) # m else (k', v') # Map_set m k v)"

definition new_Map :: "('k \<times> 'v) list \<Rightarrow> ('k \<times> 'v) list" where
  "new_Map entries = foldl (\<lambda>m (k, v). Map_set m k v) [] entries"

definition Map_values :: "('k \<times> 'v) list \<Rightarrow> 'v list" where
  "Map_values m = map snd m"

text \<open>A JavaScript \<^verbatim>\<open>Set\<close> keeps its values in insertion order; adding a member again changes nothing.\<close>

definition Set_add :: "'a list \<Rightarrow> 'a \<Rightarrow> 'a list" where
  "Set_add s x = (if x \<in> set s then s else s @ [x])"

definition new_Set :: "'a list \<Rightarrow> 'a list" where
  "new_Set xs = foldl Set_add [] xs"

section \<open>The orchestrator\<close>

text \<open>
  The constructor. \<open>NomicEmbeddingsv1_5\<close> is the default embedding provider that
  \<^verbatim>\<open>RAGEmbedding.init\<close> receives when the builder has none. The two checks are the last
  statements of the constructor; the builder's getters and \<^verbatim>\<open>cleanString\<close> are taken to
  return. Of the process-wide registrations the constructor makes before the checks
  (\<^verbatim>\<open>BaseLoader.setCache\<close>, \<^verbatim>\<open>BaseModel.setDefaultTemperature\<close>, \<^verbatim>\<open>RAGEmbedding.init\<close>)
  the orchestrator itself reads only the embedding provider, kept here as the field
  \<open>embedding\<close>.
\<close>

definition constructor ::
  "(string \<Rightarrow> string) \<Rightarrow> BaseEmbeddings \<Rightarrow> 'db RAGApplicationBuilder \<Rightarrow> error + 'db RAGApplication" where
  "constructor clean NomicEmbeddingsv1_5 llmBuilder =
     (case builder_getModel llmBuilder of
        None \<Rightarrow> Inl (SyntaxError ''Model not set'')
      | Some m \<Rightarrow>
         (case builder_getVectorDb llmBuilder of
            None \<Rightarrow> Inl (SyntaxError ''VectorDb not set'')
          | Some (db, st) \<Rightarrow>
              Inr \<lparr> queryTemplate = clean (builder_getQueryTemplate llmBuilder),
                    searchResultCount = builder_getSearchResultCount llmBuilder,
                    cache = builder_getCache llmBuilder,
                    vectorDb = db,
                    dbState = st,
                    reranker = builder_getReranker llmBuilder,
                    model = m,
                    embeddingRelevanceCutOff = builder_getEmbeddingRelevanceCutOff llmBuilder,
                    loaders = builder_getLoaders llmBuilder,
                    embedding = (case builder_getEmbeddingModel llmBuilder of
                                   Some e \<Rightarrow> e | None \<Rightarrow> NomicEmbeddingsv1_5),
                    cleanString = clean,
                    console = [],
                    incrementalHandlers = [] \<rparr>))"

subsection \<open>Deletion and reset\<close>

definition deleteLoader ::
  "'db RAGApplication \<Rightarrow> string \<Rightarrow> bool \<Rightarrow> error + bool \<times> 'db RAGApplication" where
  "deleteLoader app uniqueLoaderId areYouSure =
     (if \<not> areYouSure then
        Inr (False, app\<lparr>console := console app @
          [''Delete embeddings from loader called without confirmation. No action taken.'']\<rparr>)
      else
        (case deleteKeys (vectorDb app) uniqueLoaderId (dbState app) of
           Inl e \<Rightarrow> Inl e
         | Inr (deleteResult, st) \<Rightarrow>
             (let app1 = app\<lparr>dbState := st\<rparr>;
                  app2 = (case cache app1 of
                            Some c \<Rightarrow>
                              if deleteResult
                              then app1\<lparr>cache := Some (cache_deleteLoader c uniqueLoaderId)\<rparr>
                              else app1
                          | None \<Rightarrow> app1);
                  app3 = app2\<lparr>loaders :=
                    filter (\<lambda>x. getUniqueId x \<noteq> uniqueLoaderId) (loaders app2)\<rparr>
              in Inr (deleteResult, app3))))"

definition deleteAllEmbeddings ::
  "'db RAGApplication \<Rightarrow> bool \<Rightarrow> error + bool \<times> 'db RAGApplication" where
  "deleteAllEmbeddings app areYouSure =
     (if \<not> areYouSure then
        Inr (False, app\<lparr>console := console app @
          [''Reset embeddings called without confirmation. No action taken.'']\<rparr>)
      else
        (case reset (vectorDb app) (dbState app) of
           Inl e \<Rightarrow> Inl e
         | Inr st \<Rightarrow> Inr (True, app\<lparr>dbState := st\<rparr>)))"

definition getEmbeddingsCount :: "'db RAGApplication \<Rightarrow> error + nat" where
  "getEmbeddingsCount app = getVectorCount (vectorDb app) (dbState app)"

subsection \<open>Retrieval\<close>

definition getEmbeddings :: "'db RAGApplication \<Rightarrow> string \<Rightarrow> error + ExtractChunkData list" where
  "getEmbeddings app cleanQuery =
     (case embedQuery (embedding app) cleanQuery of
        Inl e \<Rightarrow> Inl e
      | Inr queryEmbedded \<Rightarrow>
         (case similaritySearch (vectorDb app) queryEmbedded (searchResultCount app + 10) (dbState app) of
            Inl e \<Rightarrow> Inl e
          | Inr unfilteredResultSet \<Rightarrow>
             (case (case reranker app of
                      Some reRankDocuments \<Rightarrow> reRankDocuments cleanQuery unfilteredResultSet
                    | None \<Rightarrow> Inr unfilteredResultSet) of
                Inl e \<Rightarrow> Inl e
              | Inr rerankedResultSet \<Rightarrow>
                  Inr (slice 0 (searchResultCount app)
                        (sort_cmp (\<lambda>a b. score b - score a)
                          (filter (\<lambda>r. score r > embeddingRelevanceCutOff app) rerankedResultSet))))))"

definition getContext :: "'db RAGApplication \<Rightarrow> string \<Rightarrow> error + ExtractChunkData list" where
  "getContext app userQuery =
     (let cleanQuery = cleanString app userQuery in
      case getEmbeddings app cleanQuery of
        Inl e \<Rightarrow> Inl e
      | Inr rawContext \<Rightarrow>
          Inr (Map_values (new_Map (map (\<lambda>item. (pageContent item, item)) rawContext))))"

definition query :: "'db RAGApplication \<Rightarrow> string \<Rightarrow> string option \<Rightarrow> error + QueryResponse" where
  "query app userQuery conversationId =
     (case getContext app userQuery of
        Inl e \<Rightarrow> Inl e
      | Inr context \<Rightarrow>
         (let srcs = new_Set (map (\<lambda>chunk. metadata chunk ''source'') context) in
          case model_query (model app) (queryTemplate app) userQuery context conversationId of
            Inl e \<Rightarrow> Inl e
          | Inr answer \<Rightarrow> Inr \<lparr> sources = srcs, result = answer \<rparr>))"

subsection \<open>Ingestion\<close>

text \<open>The decimal digits of a counter, as the template literal prints a non-negative integer.\<close>

definition digit_char :: "nat \<Rightarrow> char" where
  "digit_char d = ''0123456789'' ! d"

fun string_of_nat :: "nat \<Rightarrow> string" where
  "string_of_nat n =
     (if n < 10 then [digit_char n] else string_of_nat (n div 10) @ [digit_char (n mod 10)])"

declare string_of_nat.simps [simp del]

definition getChunkUniqueId :: "string \<Rightarrow> nat \<Rightarrow> string" where
  "getChunkUniqueId loaderUniqueId incrementId = loaderUniqueId @ ''_'' @ string_of_nat incrementId"

definition embedChunks :: "'db RAGApplication \<Rightarrow> Chunk list \<Rightarrow> error + real list list" where
  "embedChunks app chunks =
     (let texts = map pageContent chunks in embedDocuments (embedding app) texts)"

definition batchLoadEmbeddings ::
  "'db RAGApplication \<Rightarrow> string \<Rightarrow> Chunk list \<Rightarrow> error + nat \<times> 'db RAGApplication" where
  "batchLoadEmbeddings app loaderUniqueId formattedChunks =
     (if length formattedChunks = 0 then Inr (0, app)
      else
        (case embedChunks app formattedChunks of
           Inl e \<Rightarrow> Inl e
         | Inr embeddings \<Rightarrow>
            (let embedded = map (\<lambda>(chunk, index).
                     \<lparr> pageContent = pageContent chunk,
                       metadata = metadata chunk,
                       vector = (if index < length embeddings then Some (embeddings ! index) else None) \<rparr>)
                   (zip formattedChunks [0 ..< length formattedChunks])
             in case insertChunks (vectorDb app) embedded (dbState app) of
                  Inl e \<Rightarrow> Inl e
                | Inr (inserted, st) \<Rightarrow> Inr (inserted, app\<lparr>dbState := st\<rparr>))))"

text \<open>
  The \<^verbatim>\<open>for await\<close> loop of \<^verbatim>\<open>batchLoadChunks\<close> over the loop variables \<open>i\<close>,
  \<open>batchSize\<close>, \<open>newInserts\<close> and \<open>formattedChunks\<close>. The constant
  \<^verbatim>\<open>DEFAULT_INSERT_BATCH_SIZE\<close> (\<^verbatim>\<open>global/constants.ts\<close> is not among the sources) is the
  parameter \<open>DEFAULT_INSERT_BATCH_SIZE\<close>. For the value 0 the source compares \<^verbatim>\<open>NaN === 0\<close>,
  which is false, as \<open>batchSize mod 0 = 0\<close> is for a positive \<open>batchSize\<close>.
\<close>

fun batchLoadChunks_loop ::
  "nat \<Rightarrow> 'db RAGApplication \<Rightarrow> string \<Rightarrow> LoaderChunk AsyncGenerator \<Rightarrow>
   nat \<Rightarrow> nat \<Rightarrow> nat \<Rightarrow> Chunk list \<Rightarrow> error + (nat \<times> Chunk list) \<times> 'db RAGApplication" where
  "batchLoadChunks_loop DEFAULT_INSERT_BATCH_SIZE app uid Done i batchSize newInserts formattedChunks =
     Inr ((newInserts, formattedChunks), app)"
| "batchLoadChunks_loop DEFAULT_INSERT_BATCH_SIZE app uid (Throw e) i batchSize newInserts formattedChunks =
     Inl e"
| "batchLoadChunks_loop DEFAULT_INSERT_BATCH_SIZE app uid (Yield chunk rest) i batchSize newInserts formattedChunks =
     (let batchSize' = batchSize + 1;
          formattedChunk = \<lparr> pageContent = pageContent chunk,
                             metadata = (metadata chunk)(''uniqueLoaderId'' \<mapsto> uid,
                                                         ''id'' \<mapsto> getChunkUniqueId uid i) \<rparr>;
          i' = i + 1;
          formattedChunks' = formattedChunks @ [formattedChunk]
      in if batchSize' mod DEFAULT_INSERT_BATCH_SIZE = 0 then
           (case batchLoadEmbeddings app uid formattedChunks' of
              Inl e \<Rightarrow> Inl e
            | Inr (inserted, app') \<Rightarrow>
                batchLoadChunks_loop DEFAULT_INSERT_BATCH_SIZE app' uid rest i' 0 (newInserts + inserted) [])
         else
           batchLoadChunks_loop DEFAULT_INSERT_BATCH_SIZE app uid rest i' batchSize' newInserts formattedChunks')"

definition batchLoadChunks ::
  "nat \<Rightarrow> 'db RAGApplication \<Rightarrow> string \<Rightarrow> LoaderChunk AsyncGenerator \<Rightarrow>
   error + (nat \<times> Chunk list) \<times> 'db RAGApplication" where
  "batchLoadChunks DEFAULT_INSERT_BATCH_SIZE app uid incrementalGenerator =
     (case batchLoadChunks_loop DEFAULT_INSERT_BATCH_SIZE app uid incrementalGenerator 0 0 0 [] of
        Inl e \<Rightarrow> Inl e
      | Inr ((newInserts, formattedChunks), app1) \<Rightarrow>
         (case batchLoadEmbeddings app1 uid formattedChunks of
            Inl e \<Rightarrow> Inl e
          | Inr (inserted, app2) \<Rightarrow> Inr ((newInserts + inserted, formattedChunks), app2)))"

definition incrementalLoader ::
  "nat \<Rightarrow> 'db RAGApplication \<Rightarrow> string \<Rightarrow> LoaderChunk AsyncGenerator \<Rightarrow> error + 'db RAGApplication" where
  "incrementalLoader DEFAULT_INSERT_BATCH_SIZE app uid incrementalGenerator =
     (case batchLoadChunks DEFAULT_INSERT_BATCH_SIZE app uid incrementalGenerator of
        Inl e \<Rightarrow> Inl e
      | Inr ((newInserts, formattedChunks), app') \<Rightarrow> Inr app')"

definition addLoader ::
  "nat \<Rightarrow> 'db RAGApplication \<Rightarrow> BaseLoader \<Rightarrow> error + AddLoaderReturn \<times> 'db RAGApplication" where
  "addLoader DEFAULT_INSERT_BATCH_SIZE app loader =
     (let uid = getUniqueId loader in
      case loader_init loader of
        Some e \<Rightarrow> Inl e
      | None \<Rightarrow>
         (let chunks = getChunks loader in
          case (case cache app of
                  None \<Rightarrow> Inr app
                | Some c \<Rightarrow>
                    if cache_hasLoader c uid then
                      (let previousChunkCount = cache_getLoader c uid in
                       if previousChunkCount > 0 then
                         (case deleteLoader app uid True of
                            Inl e \<Rightarrow> Inl e
                          | Inr (deleteResult, app') \<Rightarrow> Inr app')
                       else Inr app)
                    else Inr app) of
            Inl e \<Rightarrow> Inl e
          | Inr app1 \<Rightarrow>
             (case batchLoadChunks DEFAULT_INSERT_BATCH_SIZE app1 uid chunks of
                Inl e \<Rightarrow> Inl e
              | Inr ((newInserts, formattedChunks), app2) \<Rightarrow>
                 (let app3 = (case cache app2 of
                                Some c \<Rightarrow> app2\<lparr>cache := Some (cache_addLoader c uid (length formattedChunks))\<rparr>
                              | None \<Rightarrow> app2);
                      app4 = (if canIncrementallyLoad loader
                              then app3\<lparr>incrementalHandlers := incrementalHandlers app3 @ [uid]\<rparr>
                              else app3);
                      app5 = app4\<lparr>loaders :=
                               filter (\<lambda>x. getUniqueId x \<noteq> getUniqueId loader) (loaders app4) @ [loader]\<rparr>
                  in Inr (\<lparr> entriesAdded = newInserts, uniqueId = uid \<rparr>, app5)))))"

text \<open>
  A loader emits \<^verbatim>\<open>incrementalChunkAvailable\<close> with a fresh fragment sequence: the handler
  that \<^verbatim>\<open>addLoader\<close> registered for its id runs \<^verbatim>\<open>incrementalLoader\<close>; without a handler
  nothing happens. This covers a loader object that was registered once: each further
  \<^verbatim>\<open>addLoader\<close> call on the same object adds another listener, and the listeners of one
  emission would share a single generator, which is not modelled.
\<close>

definition emit_incrementalChunkAvailable ::
  "nat \<Rightarrow> 'db RAGApplication \<Rightarrow> string \<Rightarrow> LoaderChunk AsyncGenerator \<Rightarrow> error + 'db RAGApplication" where
  "emit_incrementalChunkAvailable DEFAULT_INSERT_BATCH_SIZE app loaderId incrementalGenerator =
     (if loaderId \<in> set (incrementalHandlers app)
      then incrementalLoader DEFAULT_INSERT_BATCH_SIZE app loaderId incrementalGenerator
      else Inr app)"

section \<open>Specification-side notions and reference collaborators\<close>

text \<open>
  The values of a list in the order of their first occurrence: what ``deduplicated,
  first-seen order'' means.
\<close>

primrec first_occurrences :: "'a list \<Rightarrow> 'a list" where
  "first_occurrences [] = []"
| "first_occurrences (x # xs) = x # filter (\<lambda>y. y \<noteq> x) (first_occurrences xs)"

text \<open>
  Modelled from the spec: the contract of the vector store adapter (its implementations
  are not among the sources). Seen through \<open>stored\<close>, the entries a store state holds,
  \<^verbatim>\<open>insertChunks\<close> appends the given entries and returns their number,
  \<^verbatim>\<open>getVectorCount\<close> is the number of entries held, and \<^verbatim>\<open>deleteKeys\<close> succeeds and
  removes exactly the entries whose \<open>metadata.uniqueLoaderId\<close> is the given loader id.
\<close>

definition insert_contract :: "'db BaseDb \<Rightarrow> ('db \<Rightarrow> InsertChunkData list) \<Rightarrow> bool" where
  "insert_contract db stored \<longleftrightarrow>
     (\<forall>chunks st. \<exists>st'. insertChunks db chunks st = Inr (length chunks, st') \<and>
                             stored st' = stored st @ chunks) \<and>
     (\<forall>st. getVectorCount db st = Inr (length (stored st)))"

definition delete_contract :: "'db BaseDb \<Rightarrow> ('db \<Rightarrow> InsertChunkData list) \<Rightarrow> bool" where
  "delete_contract db stored \<longleftrightarrow>
     (\<forall>loaderId st. \<exists>st'. deleteKeys db loaderId st = Inr (True, st') \<and>
        stored st' = filter (\<lambda>c. metadata c ''uniqueLoaderId'' \<noteq> Some loaderId) (stored st))"

text \<open>The embedding provider answers every \<^verbatim>\<open>embedDocuments\<close> call.\<close>

definition embedding_answers :: "BaseEmbeddings \<Rightarrow> bool" where
  "embedding_answers e \<longleftrightarrow> (\<forall>texts. \<exists>vectors. embedDocuments e texts = Inr vectors)"

text \<open>
  The chunk count of the cache's LoaderRecord for a loader id: \<open>None\<close> without a cache
  or without a record for the id.
\<close>

definition loaderRecord :: "'db RAGApplication \<Rightarrow> string \<Rightarrow> nat option" where
  "loaderRecord app loaderId = (case cache app of None \<Rightarrow> None | Some c \<Rightarrow> c loaderId)"

text \<open>The fragment that a stored entry embeds: the entry without its vector.\<close>

definition chunk_of :: "InsertChunkData \<Rightarrow> Chunk" where
  "chunk_of entry = \<lparr> pageContent = pageContent entry, metadata = metadata entry \<rparr>"

text \<open>
  The fragments that the loop of \<^verbatim>\<open>batchLoadChunks\<close> formats from a loader's sequence
  when its counter starts at \<open>i\<close>, in order: the helper lemmas relate what reaches the
  vector store to this list.
\<close>

primrec formatChunks :: "string \<Rightarrow> nat \<Rightarrow> LoaderChunk list \<Rightarrow> Chunk list" where
  "formatChunks uid i [] = []"
| "formatChunks uid i (chunk # rest) =
     \<lparr> pageContent = pageContent chunk,
       metadata = (metadata chunk)(''uniqueLoaderId'' \<mapsto> uid, ''id'' \<mapsto> getChunkUniqueId uid i) \<rparr>
     # formatChunks uid (Suc i) rest"

text \<open>
  Sequencing of calls that may reject, for statements that run several operations one
  after the other.
\<close>

definition and_then :: "error + 'a \<Rightarrow> ('a \<Rightarrow> error + 'b) \<Rightarrow> error + 'b" where
  "and_then r f = (case r of Inl e \<Rightarrow> Inl e | Inr x \<Rightarrow> f x)"

text \<open>
  Reference collaborators, used where a theorem is instantiated at a concrete
  configuration: a vector store that keeps the inserted entries in a list and answers
  every search with the first \<open>k\<close> entries of a fixed result list, an embedding provider,
  a generation model and an orchestrator built from them.
\<close>

definition memoryDb :: "ExtractChunkData list \<Rightarrow> InsertChunkData list BaseDb" where
  "memoryDb found =
     \<lparr> insertChunks = (\<lambda>chunks st. Inr (length chunks, st @ chunks)),
       similaritySearch = (\<lambda>q k st. Inr (take (nat k) found)),
       getVectorCount = (\<lambda>st. Inr (length st)),
       deleteKeys = (\<lambda>loaderId st.
         Inr (True, filter (\<lambda>c. metadata c ''uniqueLoaderId'' \<noteq> Some loaderId) st)),
       reset = (\<lambda>st. Inr []) \<rparr>"

definition fixedEmbeddings :: BaseEmbeddings where
  "fixedEmbeddings =
     \<lparr> embedDocuments = (\<lambda>texts. Inr (map (\<lambda>t. [real (length t)]) texts)),
       embedQuery = (\<lambda>t. Inr [real (length t)]),
       getDimensions = 1 \<rparr>"

definition echoModel :: BaseModel where
  "echoModel = \<lparr> model_query = (\<lambda>template userQuery context conversationId.
      Inr (concat (map pageContent context))) \<rparr>"

definition exampleApp ::
  "ExtractChunkData list \<Rightarrow> int \<Rightarrow> BaseCache option \<Rightarrow> InsertChunkData list RAGApplication" where
  "exampleApp found k c =
     \<lparr> queryTemplate = ''Answer from the context.'',
       searchResultCount = k,
       cache = c,
       vectorDb = memoryDb found,
       dbState = [],
       reranker = None,
       model = echoModel,
       embeddingRelevanceCutOff = 0.5,
       loaders = [],
       embedding = fixedEmbeddings,
       cleanString = (\<lambda>s. s),
       console = [],
       incrementalHandlers = [] \<rparr>"

definition fragment :: "string \<Rightarrow> string \<Rightarrow> real \<Rightarrow> ExtractChunkData" where
  "fragment content src sc = \<lparr> pageContent = content, metadata = [''source'' \<mapsto> src], score = sc \<rparr>"


definition exampleLoader :: "string \<Rightarrow> LoaderChunk list \<Rightarrow> bool \<Rightarrow> BaseLoader" where
  "exampleLoader loaderId chunks incremental =
     \<lparr> getUniqueId = loaderId, loader_init = None, getChunks = fromList chunks,
       canIncrementallyLoad = incremental \<rparr>"

text \<open>A vector store whose \<^verbatim>\<open>deleteKeys\<close> reports failure and deletes nothing.\<close>

definition refusingDb :: "InsertChunkData list BaseDb" where
  "refusingDb = (memoryDb [])\<lparr>deleteKeys := (\<lambda>loaderId st. Inr (False, st))\<rparr>"

definition exampleChunk :: "string \<Rightarrow> LoaderChunk" where
  "exampleChunk content = \<lparr> pageContent = content, metadata = [''source'' \<mapsto> ''doc''] \<rparr>"

definition exampleEntry :: "string \<Rightarrow> string \<Rightarrow> InsertChunkData" where
  "exampleEntry content loaderId =
     \<lparr> pageContent = content, metadata = [''uniqueLoaderId'' \<mapsto> loaderId], vector = None \<rparr>"

section \<open>Properties of the built-ins\<close>

lemma set_insert_cmp: "set (insert_cmp c x ys) = insert x (set ys)"
  by (induction ys) auto

lemma length_insert_cmp: "length (insert_cmp c x ys) = Suc (length ys)"
  by (induction ys) auto

lemma set_sort_cmp: "set (sort_cmp c xs) = set xs"
  by (induction xs) (auto simp: sort_cmp_def set_insert_cmp)

lemma length_sort_cmp: "length (sort_cmp c xs) = length xs"
  by (induction xs) (auto simp: sort_cmp_def length_insert_cmp)

lemma sorted_insert_cmp:
  "sorted_wrt (\<lambda>a b. score b \<le> score a) ys \<Longrightarrow>
   sorted_wrt (\<lambda>a b. score b \<le> score a) (insert_cmp (\<lambda>a b. score b - score a) x ys)"
  by (induction ys) (auto simp: set_insert_cmp)

lemma sorted_sort_cmp:
  "sorted_wrt (\<lambda>a b. score b \<le> score a) (sort_cmp (\<lambda>a b. score b - score a) xs)"
  by (induction xs) (auto simp: sort_cmp_def sorted_insert_cmp)

lemma slice_0_nonneg: "0 \<le> k \<Longrightarrow> slice 0 k xs = take (nat k) xs"
  by (auto simp: slice_def Let_def min_def)

lemma set_first_occurrences: "set (first_occurrences xs) = set xs"
  by (induction xs) auto

lemma distinct_first_occurrences: "distinct (first_occurrences xs)"
  by (induction xs) auto

lemma Set_add_mem: "x \<in> set s \<Longrightarrow> Set_add s x = s"
  by (simp add: Set_add_def)

lemma Set_add_new: "x \<notin> set s \<Longrightarrow> Set_add s x = s @ [x]"
  by (simp add: Set_add_def)

lemma foldl_Set_add:
  "foldl Set_add acc xs = acc @ filter (\<lambda>y. y \<notin> set acc) (first_occurrences xs)"
proof (induction xs arbitrary: acc)
  case Nil
  then show ?case by simp
next
  case (Cons x xs)
  show ?case
  proof (cases "x \<in> set acc")
    case True
    have "filter (\<lambda>y. y \<notin> set acc) (filter (\<lambda>y. y \<noteq> x) (first_occurrences xs))
        = filter (\<lambda>y. y \<notin> set acc) (first_occurrences xs)"
      using True by (auto intro: filter_cong)
    with True show ?thesis by (simp add: Cons.IH Set_add_mem)
  next
    case False
    have "filter (\<lambda>y. y \<notin> set (acc @ [x])) (first_occurrences xs)
        = filter (\<lambda>y. y \<notin> set acc) (filter (\<lambda>y. y \<noteq> x) (first_occurrences xs))"
      by (auto intro: filter_cong)
    with False show ?thesis by (simp add: Cons.IH Set_add_new)
  qed
qed

lemma new_Set_first_occurrences: "new_Set xs = first_occurrences xs"
  by (simp add: new_Set_def foldl_Set_add)

lemma map_fst_Map_set: "map fst (Map_set m k v) = Set_add (map fst m) k"
  by (induction m) (force simp: Set_add_def)+

lemma map_of_Map_set: "map_of (Map_set m k v) = (map_of m)(k \<mapsto> v)"
  by (induction m) (auto simp: fun_eq_iff)

lemma map_fst_foldl_Map_set:
  "map fst (foldl (\<lambda>m (k, v). Map_set m k v) m es) = foldl Set_add (map fst m) (map fst es)"
  by (induction es arbitrary: m) (auto simp: map_fst_Map_set)

lemma map_of_foldl_Map_set:
  "map_of (foldl (\<lambda>m (k, v). Map_set m k v) m es) = map_of m ++ map_of (rev es)"
  by (induction es arbitrary: m) (auto simp: map_of_Map_set)

lemma keys_new_Map: "map fst (new_Map es) = first_occurrences (map fst es)"
  by (simp add: new_Map_def map_fst_foldl_Map_set foldl_Set_add)

lemma map_of_new_Map: "map_of (new_Map es) = map_of (rev es)"
  by (simp add: new_Map_def map_of_foldl_Map_set)

lemma values_by_keys:
  "distinct (map fst m) \<Longrightarrow> map snd m = map (\<lambda>k. the (map_of m k)) (map fst m)"
proof (induction m)
  case Nil
  then show ?case by simp
next
  case (Cons p m)
  obtain k v where p: "p = (k, v)" by (cases p)
  from Cons.prems p have nk: "k \<notin> fst ` set m" and d: "distinct (map fst m)" by auto
  have "map (\<lambda>k'. the (map_of (p # m) k')) (map fst m) = map (\<lambda>k'. the (map_of m k')) (map fst m)"
    using nk p by (intro map_cong) auto
  with Cons.IH[OF d] p show ?case by simp
qed

lemma map_of_rev_keyed:
  "k \<in> f ` set xs \<Longrightarrow>
   map_of (rev (map (\<lambda>item. (f item, item)) xs)) k = Some (last (filter (\<lambda>x. f x = k) xs))"
  by (induction xs rule: rev_induct) auto

lemma Map_values_keyed:
  "Map_values (new_Map (map (\<lambda>item. (f item, item)) xs))
   = map (\<lambda>k. last (filter (\<lambda>x. f x = k) xs)) (first_occurrences (map f xs))"
proof -
  let ?es = "map (\<lambda>item. (f item, item)) xs"
  have d: "distinct (map fst (new_Map ?es))"
    by (simp add: keys_new_Map distinct_first_occurrences)
  have k: "map fst (new_Map ?es) = first_occurrences (map f xs)"
    by (simp add: keys_new_Map comp_def)
  have "Map_values (new_Map ?es) = map (\<lambda>k. the (map_of (rev ?es) k)) (first_occurrences (map f xs))"
    using values_by_keys[OF d] by (simp add: Map_values_def k map_of_new_Map)
  also have "\<dots> = map (\<lambda>k. last (filter (\<lambda>x. f x = k) xs)) (first_occurrences (map f xs))"
    by (rule map_cong) (auto simp: set_first_occurrences rev_map[symmetric] map_of_rev_keyed simp del: rev_map)
  finally show ?thesis .
qed

section \<open>Retrieval\<close>

lemma getEmbeddings_Inr:
  assumes "getEmbeddings app cleanQuery = Inr rs"
  obtains ranked where
    "rs = slice 0 (searchResultCount app)
            (sort_cmp (\<lambda>a b. score b - score a)
              (filter (\<lambda>r. embeddingRelevanceCutOff app < score r) ranked))"
  using assms unfolding getEmbeddings_def
  by (auto split: sum.splits option.splits)

text \<open>
  \<^bold>\<open>C5.\<close> For a non-negative configured \<open>searchResultCount\<close>, every query for which
  \<^verbatim>\<open>getEmbeddings\<close> returns yields at most \<open>searchResultCount\<close> fragments, each with a
  score strictly above the relevance cutoff, in descending order of score. With cutoff
  0.5, top-K 2 and a result set (after the optional reranking step) scored
  \<open>[0.9, 0.6, 0.4, 0.3]\<close>, it returns exactly the fragments scored 0.9 and 0.6, in that
  order.
\<close>

theorem getEmbeddings_top_k_above_cutoff:
  "(0 \<le> searchResultCount app \<and> getEmbeddings app cleanQuery = Inr rs \<longrightarrow>
      length rs \<le> nat (searchResultCount app) \<and>
      (\<forall>r \<in> set rs. embeddingRelevanceCutOff app < score r) \<and>
      sorted_wrt (\<lambda>a b. score b \<le> score a) rs) \<and>
   (embedQuery (embedding app) cleanQuery = Inr v \<and>
    similaritySearch (vectorDb app) v (searchResultCount app + 10) (dbState app) = Inr found \<and>
    (case reranker app of Some reRankDocuments \<Rightarrow> reRankDocuments cleanQuery found | None \<Rightarrow> Inr found)
      = Inr [r1, r2, r3, r4] \<and>
    score r1 = 0.9 \<and> score r2 = 0.6 \<and> score r3 = 0.4 \<and> score r4 = 0.3 \<and>
    embeddingRelevanceCutOff app = 0.5 \<and> searchResultCount app = 2 \<longrightarrow>
      getEmbeddings app cleanQuery = Inr [r1, r2])"
proof (intro conjI impI)
  assume a: "0 \<le> searchResultCount app \<and> getEmbeddings app cleanQuery = Inr rs"
  then obtain ranked where rs:
    "rs = slice 0 (searchResultCount app)
            (sort_cmp (\<lambda>a b. score b - score a)
              (filter (\<lambda>r. embeddingRelevanceCutOff app < score r) ranked))"
    by (auto elim: getEmbeddings_Inr)
  let ?sorted = "sort_cmp (\<lambda>a b. score b - score a)
              (filter (\<lambda>r. embeddingRelevanceCutOff app < score r) ranked)"
  from a rs have t: "rs = take (nat (searchResultCount app)) ?sorted"
    by (simp add: slice_0_nonneg)
  show "length rs \<le> nat (searchResultCount app)"
    by (simp add: t)
  show "\<forall>r \<in> set rs. embeddingRelevanceCutOff app < score r"
  proof
    fix r assume "r \<in> set rs"
    then have "r \<in> set ?sorted" unfolding t by (rule in_set_takeD)
    then show "embeddingRelevanceCutOff app < score r" by (simp add: set_sort_cmp)
  qed
  show "sorted_wrt (\<lambda>a b. score b \<le> score a) rs"
    unfolding t by (rule sorted_wrt_take) (rule sorted_sort_cmp)
next
  assume b: "embedQuery (embedding app) cleanQuery = Inr v \<and>
    similaritySearch (vectorDb app) v (searchResultCount app + 10) (dbState app) = Inr found \<and>
    (case reranker app of Some reRankDocuments \<Rightarrow> reRankDocuments cleanQuery found | None \<Rightarrow> Inr found)
      = Inr [r1, r2, r3, r4] \<and>
    score r1 = 0.9 \<and> score r2 = 0.6 \<and> score r3 = 0.4 \<and> score r4 = 0.3 \<and>
    embeddingRelevanceCutOff app = 0.5 \<and> searchResultCount app = 2"
  then have e: "embedQuery (embedding app) cleanQuery = Inr v"
    and s: "similaritySearch (vectorDb app) v (searchResultCount app + 10) (dbState app) = Inr found"
    and rr: "(case reranker app of Some reRankDocuments \<Rightarrow> reRankDocuments cleanQuery found | None \<Rightarrow> Inr found)
      = Inr [r1, r2, r3, r4]"
    and sc: "score r1 = 0.9" "score r2 = 0.6" "score r3 = 0.4" "score r4 = 0.3"
    and c: "embeddingRelevanceCutOff app = 0.5" and k: "searchResultCount app = 2"
    by blast+
  have "getEmbeddings app cleanQuery =
      Inr (slice 0 (searchResultCount app) (sort_cmp (\<lambda>a b. score b - score a)
             (filter (\<lambda>r. embeddingRelevanceCutOff app < score r) [r1, r2, r3, r4])))"
    unfolding getEmbeddings_def by (simp only: e s rr sum.case)
  also have "filter (\<lambda>r. embeddingRelevanceCutOff app < score r) [r1, r2, r3, r4] = [r1, r2]"
    by (simp add: sc c)
  also have "sort_cmp (\<lambda>a b. score b - score a) [r1, r2] = [r1, r2]"
    by (simp add: sort_cmp_def sc)
  also have "slice 0 (searchResultCount app) [r1, r2] = [r1, r2]"
    by (simp add: slice_def k)
  finally show "getEmbeddings app cleanQuery = Inr [r1, r2]" .
qed

theorem getEmbeddings_top_k_above_cutoff_witness:
  "getEmbeddings
      (exampleApp [fragment ''a'' ''s1'' 0.9, fragment ''b'' ''s2'' 0.6,
                   fragment ''c'' ''s3'' 0.4, fragment ''d'' ''s4'' 0.3] 2 None) ''q''
    = Inr [fragment ''a'' ''s1'' 0.9, fragment ''b'' ''s2'' 0.6] \<and>
   0 \<le> searchResultCount (exampleApp [fragment ''a'' ''s1'' 0.9, fragment ''b'' ''s2'' 0.6,
                   fragment ''c'' ''s3'' 0.4, fragment ''d'' ''s4'' 0.3] 2 None) \<and>
   length [fragment ''a'' ''s1'' 0.9, fragment ''b'' ''s2'' 0.6] \<le> 2 \<and>
   sorted_wrt (\<lambda>a b. score b \<le> score a) [fragment ''a'' ''s1'' 0.9, fragment ''b'' ''s2'' 0.6]"
proof -
  let ?found = "[fragment ''a'' ''s1'' 0.9, fragment ''b'' ''s2'' 0.6,
                   fragment ''c'' ''s3'' 0.4, fragment ''d'' ''s4'' 0.3]"
  let ?app = "exampleApp ?found 2 None"
  have h: "embedQuery (embedding ?app) ''q'' = Inr [1] \<and>
    similaritySearch (vectorDb ?app) [1] (searchResultCount ?app + 10) (dbState ?app) = Inr ?found \<and>
    (case reranker ?app of Some reRankDocuments \<Rightarrow> reRankDocuments ''q'' ?found | None \<Rightarrow> Inr ?found)
      = Inr ?found \<and>
    score (fragment ''a'' ''s1'' 0.9) = 0.9 \<and> score (fragment ''b'' ''s2'' 0.6) = 0.6 \<and>
    score (fragment ''c'' ''s3'' 0.4) = 0.4 \<and> score (fragment ''d'' ''s4'' 0.3) = 0.3 \<and>
    embeddingRelevanceCutOff ?app = 0.5 \<and> searchResultCount ?app = 2"
    by (simp add: exampleApp_def memoryDb_def fixedEmbeddings_def fragment_def)
  have k: "0 \<le> searchResultCount ?app" by (simp add: exampleApp_def)
  note t = getEmbeddings_top_k_above_cutoff[of ?app "''q''" "[fragment ''a'' ''s1'' 0.9, fragment ''b'' ''s2'' 0.6]"
      "[1]" ?found "fragment ''a'' ''s1'' 0.9" "fragment ''b'' ''s2'' 0.6" "fragment ''c'' ''s3'' 0.4" "fragment ''d'' ''s4'' 0.3"]
  from t h have g: "getEmbeddings ?app ''q'' = Inr [fragment ''a'' ''s1'' 0.9, fragment ''b'' ''s2'' 0.6]"
    by blast
  from t k g have "length [fragment ''a'' ''s1'' 0.9, fragment ''b'' ''s2'' 0.6] \<le> nat (searchResultCount ?app) \<and>
      sorted_wrt (\<lambda>a b. score b \<le> score a) [fragment ''a'' ''s1'' 0.9, fragment ''b'' ''s2'' 0.6]"
    by blast
  with g k show ?thesis by (simp add: exampleApp_def)
qed

text \<open>
  \<^bold>\<open>C2, as stated, fails.\<close> Two retrieved fragments share their \<open>pageContent\<close>; the
  context that \<^verbatim>\<open>getContext\<close> returns holds the second of them, not the first: the
  \<^verbatim>\<open>Map\<close> keeps the key at its first position and the value of the last \<^verbatim>\<open>set\<close>.
\<close>

theorem getContext_keeps_last_occurrence:
  "getEmbeddings (exampleApp [fragment ''same'' ''first'' 0.9, fragment ''same'' ''second'' 0.8] 2 None) ''q''
     = Inr [fragment ''same'' ''first'' 0.9, fragment ''same'' ''second'' 0.8] \<and>
   pageContent (fragment ''same'' ''first'' 0.9) = pageContent (fragment ''same'' ''second'' 0.8) \<and>
   getContext (exampleApp [fragment ''same'' ''first'' 0.9, fragment ''same'' ''second'' 0.8] 2 None) ''q''
     = Inr [fragment ''same'' ''second'' 0.8] \<and>
   fragment ''same'' ''second'' 0.8 \<noteq> fragment ''same'' ''first'' 0.9"
  by (simp add: getContext_def getEmbeddings_def exampleApp_def memoryDb_def fixedEmbeddings_def
      fragment_def sort_cmp_def slice_def new_Map_def Map_values_def)

text \<open>
  \<^bold>\<open>C2, amended.\<close> For every retrieved context list, \<^verbatim>\<open>getContext\<close> deduplicates by
  exact \<open>pageContent\<close> equality: no two returned fragments have the same \<open>pageContent\<close>,
  the page contents appear in first-seen order of the post-truncation list, and the
  fragment returned for a page content is its last occurrence in that list.
\<close>

theorem getContext_deduplicates:
  assumes "getContext app userQuery = Inr ctxt"
  shows "\<exists>rawContext. getEmbeddings app (cleanString app userQuery) = Inr rawContext \<and>
     distinct (map pageContent ctxt) \<and>
     map pageContent ctxt = first_occurrences (map pageContent rawContext) \<and>
     ctxt = map (\<lambda>p. last (filter (\<lambda>item. pageContent item = p) rawContext))
                 (first_occurrences (map pageContent rawContext))"
proof -
  from assms obtain rawContext where
    raw: "getEmbeddings app (cleanString app userQuery) = Inr rawContext" and
    ctx: "ctxt = Map_values (new_Map (map (\<lambda>item. (pageContent item, item)) rawContext))"
    by (auto simp: getContext_def Let_def split: sum.splits)
  let ?keys = "first_occurrences (map pageContent rawContext)"
  have vals: "ctxt = map (\<lambda>p. last (filter (\<lambda>item. pageContent item = p) rawContext)) ?keys"
    unfolding ctx by (rule Map_values_keyed)
  have "map pageContent ctxt = map (\<lambda>p. p) ?keys"
    unfolding vals map_map
  proof (rule map_cong[OF refl])
    fix p assume "p \<in> set ?keys"
    then have "p \<in> pageContent ` set rawContext" by (simp add: set_first_occurrences)
    then have ne: "filter (\<lambda>item. pageContent item = p) rawContext \<noteq> []"
      by (auto simp: filter_empty_conv)
    from last_in_set[OF ne]
    show "(pageContent \<circ> (\<lambda>p. last (filter (\<lambda>item. pageContent item = p) rawContext))) p = p"
      by simp
  qed
  then have keys: "map pageContent ctxt = ?keys" by simp
  have "distinct (map pageContent ctxt)"
    unfolding keys by (rule distinct_first_occurrences)
  with raw keys vals show ?thesis by blast
qed

theorem getContext_deduplicates_witness:
  "getContext (exampleApp [fragment ''x'' ''s1'' 0.9, fragment ''y'' ''s2'' 0.8, fragment ''x'' ''s3'' 0.7] 3 None) ''q''
     = Inr [fragment ''x'' ''s3'' 0.7, fragment ''y'' ''s2'' 0.8] \<and>
   distinct (map pageContent [fragment ''x'' ''s3'' 0.7, fragment ''y'' ''s2'' 0.8]) \<and>
   map pageContent [fragment ''x'' ''s3'' 0.7, fragment ''y'' ''s2'' 0.8] = [''x'', ''y'']"
proof -
  let ?app = "exampleApp [fragment ''x'' ''s1'' 0.9, fragment ''y'' ''s2'' 0.8, fragment ''x'' ''s3'' 0.7] 3 None"
  have g: "getContext ?app ''q'' = Inr [fragment ''x'' ''s3'' 0.7, fragment ''y'' ''s2'' 0.8]"
    by (simp add: getContext_def getEmbeddings_def exampleApp_def memoryDb_def fixedEmbeddings_def
      fragment_def sort_cmp_def slice_def new_Map_def Map_values_def)
  from getContext_deduplicates[OF g]
  have "distinct (map pageContent [fragment ''x'' ''s3'' 0.7, fragment ''y'' ''s2'' 0.8])"
    by blast
  with g show ?thesis by (simp add: fragment_def)
qed

text \<open>
  \<^bold>\<open>C8.\<close> When \<^verbatim>\<open>query\<close> returns, its \<open>sources\<close> are the distinct
  \<open>metadata.source\<close> values of the context list that \<^verbatim>\<open>getContext\<close> produced (after
  filtering and deduplication), in the order of first occurrence, and that same context
  list is the one handed to the generation model, whose answer is the \<open>result\<close>.
\<close>

theorem query_sources:
  assumes "query app userQuery conversationId = Inr response"
  shows "\<exists>ctxt. getContext app userQuery = Inr ctxt \<and>
     model_query (model app) (queryTemplate app) userQuery ctxt conversationId = Inr (result response) \<and>
     sources response = first_occurrences (map (\<lambda>chunk. metadata chunk ''source'') ctxt) \<and>
     distinct (sources response) \<and>
     set (sources response) = (\<lambda>chunk. metadata chunk ''source'') ` set ctxt"
proof -
  from assms obtain ctxt answer where
    c: "getContext app userQuery = Inr ctxt" and
    m: "model_query (model app) (queryTemplate app) userQuery ctxt conversationId = Inr answer" and
    r: "response = \<lparr> sources = new_Set (map (\<lambda>chunk. metadata chunk ''source'') ctxt), result = answer \<rparr>"
    by (auto simp: query_def Let_def split: sum.splits)
  have s: "sources response = first_occurrences (map (\<lambda>chunk. metadata chunk ''source'') ctxt)"
    by (simp add: r new_Set_first_occurrences)
  have "distinct (sources response)" unfolding s by (rule distinct_first_occurrences)
  moreover have "set (sources response) = (\<lambda>chunk. metadata chunk ''source'') ` set ctxt"
    unfolding s by (simp add: set_first_occurrences)
  moreover have "model_query (model app) (queryTemplate app) userQuery ctxt conversationId = Inr (result response)"
    using m r by simp
  ultimately show ?thesis using c s by blast
qed

theorem query_sources_witness:
  "query (exampleApp [fragment ''x'' ''s1'' 0.9, fragment ''y'' ''s2'' 0.8, fragment ''z'' ''s1'' 0.7] 3 None)
      ''q'' None
     = Inr \<lparr> sources = [Some ''s1'', Some ''s2''], result = ''xyz'' \<rparr> \<and>
   distinct [Some ''s1'', Some ''s2'']"
proof -
  let ?app = "exampleApp [fragment ''x'' ''s1'' 0.9, fragment ''y'' ''s2'' 0.8, fragment ''z'' ''s1'' 0.7] 3 None"
  have g: "query ?app ''q'' None = Inr \<lparr> sources = [Some ''s1'', Some ''s2''], result = ''xyz'' \<rparr>"
    by (simp add: query_def getContext_def getEmbeddings_def exampleApp_def memoryDb_def fixedEmbeddings_def
      echoModel_def fragment_def sort_cmp_def slice_def new_Map_def Map_values_def new_Set_def Set_add_def)
  from query_sources[OF g] have "distinct (sources \<lparr> sources = [Some ''s1'', Some ''s2''], result = ''xyz'' \<rparr>)"
    by blast
  with g show ?thesis by simp
qed

section \<open>Deletion, reset and construction\<close>

text \<open>
  \<^bold>\<open>C3, as stated, fails.\<close> The vector store reports that the deletion failed
  (\<^verbatim>\<open>deleteKeys\<close> returns false): \<^verbatim>\<open>deleteLoader(id, true)\<close> returns false and keeps the
  LoaderRecord, yet the loader is no longer in the tracked loader set.
\<close>

theorem deleteLoader_drops_loader_on_failure:
  "deleteLoader
      ((exampleApp [] 2 (Some [''L'' \<mapsto> 3]))
         \<lparr>vectorDb := refusingDb, loaders := [exampleLoader ''L'' [] False]\<rparr>) ''L'' True
    = Inr (False,
        (exampleApp [] 2 (Some [''L'' \<mapsto> 3]))\<lparr>vectorDb := refusingDb, loaders := []\<rparr>) \<and>
   loaders ((exampleApp [] 2 (Some [''L'' \<mapsto> 3]))
         \<lparr>vectorDb := refusingDb, loaders := [exampleLoader ''L'' [] False]\<rparr>)
    = [exampleLoader ''L'' [] False]"
  by (simp add: deleteLoader_def exampleApp_def refusingDb_def memoryDb_def exampleLoader_def)

text \<open>
  \<^bold>\<open>C3, amended.\<close> \<^verbatim>\<open>deleteLoader(id, true)\<close> asks the vector store to delete the
  entries tagged with the loader id and returns the store's deletion result (a rejection
  of the store propagates). Only when that result is true does it remove the
  LoaderRecord from the cache; the loader is dropped from the tracked loader set
  whatever the result is.
\<close>

theorem deleteLoader_confirmed:
  "(deleteKeys (vectorDb app) uniqueLoaderId (dbState app) = Inr (deleteResult, st) \<longrightarrow>
      deleteLoader app uniqueLoaderId True =
        Inr (deleteResult,
             app\<lparr>dbState := st,
                 cache := (if deleteResult
                           then map_option (\<lambda>c. cache_deleteLoader c uniqueLoaderId) (cache app)
                           else cache app),
                 loaders := filter (\<lambda>x. getUniqueId x \<noteq> uniqueLoaderId) (loaders app)\<rparr>)) \<and>
   (deleteKeys (vectorDb app) uniqueLoaderId (dbState app) = Inl e \<longrightarrow>
      deleteLoader app uniqueLoaderId True = Inl e)"
  by (cases "cache app") (auto simp: deleteLoader_def Let_def)

theorem deleteLoader_confirmed_witness:
  "deleteLoader
      ((exampleApp [] 2 (Some [''L'' \<mapsto> 3, ''M'' \<mapsto> 1]))
         \<lparr>dbState := [\<lparr>pageContent = ''a'', metadata = [''uniqueLoaderId'' \<mapsto> ''L''], vector = None\<rparr>,
                      \<lparr>pageContent = ''b'', metadata = [''uniqueLoaderId'' \<mapsto> ''M''], vector = None\<rparr>],
           loaders := [exampleLoader ''L'' [] False, exampleLoader ''M'' [] False]\<rparr>) ''L'' True
    = Inr (True,
        (exampleApp [] 2 (Some [''M'' \<mapsto> 1]))
         \<lparr>dbState := [\<lparr>pageContent = ''b'', metadata = [''uniqueLoaderId'' \<mapsto> ''M''], vector = None\<rparr>],
           loaders := [exampleLoader ''M'' [] False]\<rparr>)"
proof -
  let ?a = "\<lparr>pageContent = ''a'', metadata = [''uniqueLoaderId'' \<mapsto> ''L''], vector = None\<rparr>"
  let ?b = "\<lparr>pageContent = ''b'', metadata = [''uniqueLoaderId'' \<mapsto> ''M''], vector = None\<rparr>"
  let ?app = "(exampleApp [] 2 (Some [''L'' \<mapsto> 3, ''M'' \<mapsto> 1]))
         \<lparr>dbState := [?a, ?b], loaders := [exampleLoader ''L'' [] False, exampleLoader ''M'' [] False]\<rparr>"
  have h: "deleteKeys (vectorDb ?app) ''L'' (dbState ?app) = Inr (True, [?b])"
    by (simp add: exampleApp_def memoryDb_def)
  have c: "[''L'' \<mapsto> 3::nat, ''M'' \<mapsto> 1](''L'' := None) = [''M'' \<mapsto> 1]"
    by (auto simp: fun_eq_iff)
  from deleteLoader_confirmed[of ?app "''L''" True "[?b]"] h
  have "deleteLoader ?app ''L'' True =
        Inr (True,
             ?app\<lparr>dbState := [?b],
                 cache := (if True
                           then map_option (\<lambda>c. cache_deleteLoader c ''L'') (cache ?app)
                           else cache ?app),
                 loaders := filter (\<lambda>x. getUniqueId x \<noteq> ''L'') (loaders ?app)\<rparr>)"
    by blast
  then show ?thesis
    by (simp add: exampleApp_def exampleLoader_def cache_deleteLoader_def c)
qed

text \<open>
  \<^bold>\<open>C7.\<close> \<^verbatim>\<open>deleteLoader(id, false)\<close> and \<^verbatim>\<open>deleteAllEmbeddings(false)\<close> return false
  without raising, whatever the vector store and the cache are; the only change of state
  is the warning written to the console: the store, the cache and the tracked loader set
  are as before.
\<close>

theorem unconfirmed_deletes_are_noops:
  "deleteLoader app uniqueLoaderId False =
     Inr (False, app\<lparr>console := console app @
       [''Delete embeddings from loader called without confirmation. No action taken.'']\<rparr>) \<and>
   deleteAllEmbeddings app False =
     Inr (False, app\<lparr>console := console app @
       [''Reset embeddings called without confirmation. No action taken.'']\<rparr>)"
  by (simp add: deleteLoader_def deleteAllEmbeddings_def)

text \<open>
  \<^bold>\<open>C9.\<close> A builder without a generation model or without a vector store makes the
  constructor itself raise a \<^verbatim>\<open>SyntaxError\<close>: no orchestrator is returned on which
  \<^verbatim>\<open>init\<close> or any other operation could run.
\<close>

theorem constructor_fails_fast:
  "builder_getModel llmBuilder = None \<or> builder_getVectorDb llmBuilder = None \<Longrightarrow>
   constructor clean NomicEmbeddingsv1_5 llmBuilder = Inl (SyntaxError ''Model not set'') \<or>
   constructor clean NomicEmbeddingsv1_5 llmBuilder = Inl (SyntaxError ''VectorDb not set'')"
  by (auto simp: constructor_def split: option.splits)

theorem constructor_fails_fast_witness:
  "constructor (\<lambda>s. s) fixedEmbeddings
     \<lparr> builder_getCache = None, builder_getModel = Some echoModel,
       builder_getQueryTemplate = ''t'', builder_getLoaders = [],
       builder_getVectorDb = (None :: (InsertChunkData list BaseDb \<times> InsertChunkData list) option),
       builder_getReranker = None, builder_getSearchResultCount = 2,
       builder_getEmbeddingRelevanceCutOff = 0.5, builder_getEmbeddingModel = None \<rparr>
   = Inl (SyntaxError ''VectorDb not set'')"
  using constructor_fails_fast[of
     "\<lparr> builder_getCache = None, builder_getModel = Some echoModel,
       builder_getQueryTemplate = ''t'', builder_getLoaders = [],
       builder_getVectorDb = (None :: (InsertChunkData list BaseDb \<times> InsertChunkData list) option),
       builder_getReranker = None, builder_getSearchResultCount = 2,
       builder_getEmbeddingRelevanceCutOff = 0.5, builder_getEmbeddingModel = None \<rparr>"
     "\<lambda>s. s" fixedEmbeddings]
  by (simp add: constructor_def)

section \<open>Ingestion under the vector-store contract\<close>

lemma length_formatChunks: "length (formatChunks uid i xs) = length xs"
  by (induction xs arbitrary: i) auto

lemma ids_formatChunks:
  "map (\<lambda>c. metadata c ''id'') (formatChunks uid i xs)
   = map (\<lambda>j. Some (getChunkUniqueId uid j)) [i ..< i + length xs]"
proof (induction xs arbitrary: i)
  case Nil
  then show ?case by simp
next
  case (Cons x xs)
  have "[i ..< i + length (x # xs)] = i # [Suc i ..< Suc i + length xs]"
    by (simp add: upt_rec)
  then show ?case by (simp add: Cons.IH)
qed

lemma loaderIds_formatChunks:
  "c \<in> set (formatChunks uid i xs) \<Longrightarrow> metadata c ''uniqueLoaderId'' = Some uid"
  by (induction xs arbitrary: i) auto

lemma pageContents_formatChunks:
  "map pageContent (formatChunks uid i xs) = map pageContent xs"
  by (induction xs arbitrary: i) auto

lemma batchLoadEmbeddings_contract:
  assumes db: "insert_contract (vectorDb app) stored" and emb: "embedding_answers (embedding app)"
  shows "\<exists>st' new. batchLoadEmbeddings app uid fc = Inr (length fc, app\<lparr>dbState := st'\<rparr>) \<and>
           stored st' = stored (dbState app) @ new \<and> map chunk_of new = fc"
proof (cases "fc = []")
  case True
  then have "batchLoadEmbeddings app uid fc = Inr (length fc, app\<lparr>dbState := dbState app\<rparr>)"
    by (simp add: batchLoadEmbeddings_def)
  then show ?thesis using True by (intro exI[of _ "dbState app"] exI[of _ "[]"]) simp
next
  case False
  from emb obtain embeddings where e: "embedChunks app fc = Inr embeddings"
    unfolding embedding_answers_def embedChunks_def Let_def by blast
  define embedded where "embedded = map (\<lambda>(chunk, index).
                     \<lparr> pageContent = pageContent chunk,
                       metadata = metadata chunk,
                       vector = (if index < length embeddings then Some (embeddings ! index) else None) \<rparr>)
                   (zip fc [0 ..< length fc])"
  have len: "length embedded = length fc" by (simp add: embedded_def)
  have "map chunk_of embedded = map fst (zip fc [0 ..< length fc])"
    unfolding embedded_def map_map by (rule map_cong) (auto simp: chunk_of_def)
  then have co: "map chunk_of embedded = fc" by simp
  from db obtain st' where
    i: "insertChunks (vectorDb app) embedded (dbState app) = Inr (length embedded, st')" and
    s: "stored st' = stored (dbState app) @ embedded"
    unfolding insert_contract_def by blast
  have "batchLoadEmbeddings app uid fc = Inr (length fc, app\<lparr>dbState := st'\<rparr>)"
    using False e i len by (simp add: batchLoadEmbeddings_def Let_def embedded_def)
  with s co show ?thesis by blast
qed

lemma batchLoadChunks_loop_contract:
  assumes db: "insert_contract (vectorDb app) stored" and emb: "embedding_answers (embedding app)"
    and inv: "B = 0 \<or> length fc < B"
  shows "\<exists>st' new fc'.
           batchLoadChunks_loop B app uid (fromList xs) i (length fc) ni fc
             = Inr ((ni + length new, fc'), app\<lparr>dbState := st'\<rparr>) \<and>
           stored st' = stored (dbState app) @ new \<and>
           map chunk_of new @ fc' = fc @ formatChunks uid i xs \<and>
           length fc' = (length fc + length xs) mod B \<and>
           (B = 0 \<or> length fc' < B)"
  using db emb inv
proof (induction xs arbitrary: app i ni fc)
  case Nil
  have "batchLoadChunks_loop B app uid (fromList []) i (length fc) ni fc
          = Inr ((ni + length ([]::InsertChunkData list), fc), app\<lparr>dbState := dbState app\<rparr>)"
    by simp
  moreover have "length fc = (length fc + length ([]::Chunk list)) mod B"
    using Nil.prems(3) by auto
  ultimately show ?case using Nil.prems(3)
    by (intro exI[of _ "dbState app"] exI[of _ "[]"] exI[of _ fc]) simp
next
  case (Cons x xs)
  define f where "f = \<lparr> pageContent = pageContent x,
       metadata = (metadata x)(''uniqueLoaderId'' \<mapsto> uid, ''id'' \<mapsto> getChunkUniqueId uid i) \<rparr>"
  have fmt: "formatChunks uid i (x # xs) = f # formatChunks uid (Suc i) xs"
    by (simp add: f_def)
  show ?case
  proof (cases "Suc (length fc) mod B = 0")
    case True
    with Cons.prems(3) have B: "B = Suc (length fc)"
      by (cases "B = 0") (auto simp: mod_Suc split: if_splits)
    from batchLoadEmbeddings_contract[OF Cons.prems(1,2), of uid "fc @ [f]"]
    obtain st1 new1 where
      b: "batchLoadEmbeddings app uid (fc @ [f]) = Inr (length (fc @ [f]), app\<lparr>dbState := st1\<rparr>)" and
      s1: "stored st1 = stored (dbState app) @ new1" and
      c1: "map chunk_of new1 = fc @ [f]"
      by blast
    let ?app1 = "app\<lparr>dbState := st1\<rparr>"
    have l1: "length new1 = Suc (length fc)"
      using arg_cong[OF c1, of length] by simp
    have db1: "insert_contract (vectorDb ?app1) stored" and emb1: "embedding_answers (embedding ?app1)"
      using Cons.prems by simp_all
    have inv1: "B = 0 \<or> length ([]::Chunk list) < B" using B by simp
    from Cons.IH[OF db1 emb1 inv1, of "Suc i" "ni + length (fc @ [f])"]
    obtain st' new2 fc' where
      r: "batchLoadChunks_loop B ?app1 uid (fromList xs) (Suc i) (length ([]::Chunk list)) (ni + length (fc @ [f])) []
             = Inr ((ni + length (fc @ [f]) + length new2, fc'), ?app1\<lparr>dbState := st'\<rparr>)" and
      s2: "stored st' = stored (dbState ?app1) @ new2" and
      c2: "map chunk_of new2 @ fc' = [] @ formatChunks uid (Suc i) xs" and
      l2: "length fc' = (length ([]::Chunk list) + length xs) mod B" and
      i2: "B = 0 \<or> length fc' < B"
      by blast
    have step: "batchLoadChunks_loop B app uid (fromList (x # xs)) i (length fc) ni fc
             = Inr ((ni + length (new1 @ new2), fc'), app\<lparr>dbState := st'\<rparr>)"
      using True b r l1 by (simp add: Let_def f_def[symmetric])
    have "stored st' = stored (dbState app) @ (new1 @ new2)"
      using s1 s2 by simp
    moreover have "map chunk_of (new1 @ new2) @ fc' = fc @ formatChunks uid i (x # xs)"
      using c1 c2 fmt by simp
    moreover have "length fc' = (length fc + length (x # xs)) mod B"
    proof -
      have "(length fc + length (x # xs)) mod B = (Suc (length fc) + length xs) mod Suc (length fc)"
        by (simp add: B)
      also have "\<dots> = length xs mod Suc (length fc)"
        by (rule mod_add_self1)
      finally show ?thesis using l2 B by simp
    qed
    ultimately show ?thesis using step i2 by blast
  next
    case False
    with Cons.prems(3) have inv1: "B = 0 \<or> length (fc @ [f]) < B"
      by (cases "B = 0") (auto simp: mod_Suc split: if_splits)
    from Cons.IH[OF Cons.prems(1,2) inv1, of "Suc i" ni]
    obtain st' new fc' where
      r: "batchLoadChunks_loop B app uid (fromList xs) (Suc i) (length (fc @ [f])) ni (fc @ [f])
             = Inr ((ni + length new, fc'), app\<lparr>dbState := st'\<rparr>)" and
      s2: "stored st' = stored (dbState app) @ new" and
      c2: "map chunk_of new @ fc' = (fc @ [f]) @ formatChunks uid (Suc i) xs" and
      l2: "length fc' = (length (fc @ [f]) + length xs) mod B" and
      i2: "B = 0 \<or> length fc' < B"
      by blast
    have step: "batchLoadChunks_loop B app uid (fromList (x # xs)) i (length fc) ni fc
             = Inr ((ni + length new, fc'), app\<lparr>dbState := st'\<rparr>)"
      using False r by (simp add: Let_def f_def[symmetric])
    have "map chunk_of new @ fc' = fc @ formatChunks uid i (x # xs)"
      using c2 fmt by simp
    moreover have "length fc' = (length fc + length (x # xs)) mod B"
      using l2 by simp
    ultimately show ?thesis using step s2 i2 by blast
  qed
qed

lemma batchLoadChunks_contract:
  assumes db: "insert_contract (vectorDb app) stored" and emb: "embedding_answers (embedding app)"
  shows "\<exists>st' new fc'.
           batchLoadChunks B app uid (fromList xs)
             = Inr ((length xs, fc'), app\<lparr>dbState := st'\<rparr>) \<and>
           stored st' = stored (dbState app) @ new \<and>
           map chunk_of new = formatChunks uid 0 xs \<and>
           length fc' = length xs mod B"
proof -
  have inv: "B = 0 \<or> length ([]::Chunk list) < B" by auto
  from batchLoadChunks_loop_contract[OF db emb inv, of uid xs 0 0]
  obtain st1 new1 fc' where
    r: "batchLoadChunks_loop B app uid (fromList xs) 0 (length ([]::Chunk list)) 0 []
          = Inr ((0 + length new1, fc'), app\<lparr>dbState := st1\<rparr>)" and
    s1: "stored st1 = stored (dbState app) @ new1" and
    c1: "map chunk_of new1 @ fc' = [] @ formatChunks uid 0 xs" and
    l1: "length fc' = (length ([]::Chunk list) + length xs) mod B"
    by blast
  let ?app1 = "app\<lparr>dbState := st1\<rparr>"
  have db1: "insert_contract (vectorDb ?app1) stored" and emb1: "embedding_answers (embedding ?app1)"
    using db emb by simp_all
  from batchLoadEmbeddings_contract[OF db1 emb1, of uid fc']
  obtain st2 new2 where
    b: "batchLoadEmbeddings ?app1 uid fc' = Inr (length fc', ?app1\<lparr>dbState := st2\<rparr>)" and
    s2: "stored st2 = stored (dbState ?app1) @ new2" and
    c2: "map chunk_of new2 = fc'"
    by blast
  have all: "map chunk_of (new1 @ new2) = formatChunks uid 0 xs"
    using c1 c2 by simp
  have "length new1 + length fc' = length xs"
    using arg_cong[OF c1, of length] by (simp add: length_formatChunks)
  then have "batchLoadChunks B app uid (fromList xs) = Inr ((length xs, fc'), app\<lparr>dbState := st2\<rparr>)"
    using r b by (simp add: batchLoadChunks_def)
  moreover have "stored st2 = stored (dbState app) @ (new1 @ new2)"
    using s1 s2 by simp
  ultimately show ?thesis using all l1 by (intro exI[of _ st2] exI[of _ "new1 @ new2"] exI[of _ fc']) simp
qed

lemma addLoader_without_deletion:
  assumes db: "insert_contract (vectorDb app) stored" and emb: "embedding_answers (embedding app)"
    and init: "loader_init loader = None" and chunks: "getChunks loader = fromList xs"
    and nodel: "loaderRecord app (getUniqueId loader) = None \<or>
                loaderRecord app (getUniqueId loader) = Some 0"
  shows "\<exists>st' new.
    addLoader B app loader =
      Inr (\<lparr> entriesAdded = length xs, uniqueId = getUniqueId loader \<rparr>,
           app\<lparr>dbState := st',
               cache := map_option (\<lambda>c. cache_addLoader c (getUniqueId loader) (length xs mod B)) (cache app),
               incrementalHandlers :=
                 (if canIncrementallyLoad loader then incrementalHandlers app @ [getUniqueId loader]
                  else incrementalHandlers app),
               loaders := filter (\<lambda>x. getUniqueId x \<noteq> getUniqueId loader) (loaders app) @ [loader]\<rparr>) \<and>
    stored st' = stored (dbState app) @ new \<and>
    map chunk_of new = formatChunks (getUniqueId loader) 0 xs"
proof -
  from batchLoadChunks_contract[OF db emb, of B "getUniqueId loader" xs]
  obtain st' new fc' where
    b: "batchLoadChunks B app (getUniqueId loader) (fromList xs)
          = Inr ((length xs, fc'), app\<lparr>dbState := st'\<rparr>)" and
    s: "stored st' = stored (dbState app) @ new" and
    c: "map chunk_of new = formatChunks (getUniqueId loader) 0 xs" and
    l: "length fc' = length xs mod B"
    by blast
  have "addLoader B app loader =
      Inr (\<lparr> entriesAdded = length xs, uniqueId = getUniqueId loader \<rparr>,
           app\<lparr>dbState := st',
               cache := map_option (\<lambda>c. cache_addLoader c (getUniqueId loader) (length xs mod B)) (cache app),
               incrementalHandlers :=
                 (if canIncrementallyLoad loader then incrementalHandlers app @ [getUniqueId loader]
                  else incrementalHandlers app),
               loaders := filter (\<lambda>x. getUniqueId x \<noteq> getUniqueId loader) (loaders app) @ [loader]\<rparr>)"
  proof (cases "cache app")
    case None
    then show ?thesis
      using init chunks b l by (simp add: addLoader_def Let_def)
  next
    case (Some c)
    from nodel Some have "\<not> (cache_hasLoader c (getUniqueId loader) \<and> 0 < cache_getLoader c (getUniqueId loader))"
      by (auto simp: cache_hasLoader_def cache_getLoader_def loaderRecord_def)
    then show ?thesis
      using Some init chunks b l by (auto simp: addLoader_def Let_def)
  qed
  with s c show ?thesis by blast
qed

lemma addLoader_with_deletion:
  assumes db: "insert_contract (vectorDb app) stored" and del: "delete_contract (vectorDb app) stored"
    and emb: "embedding_answers (embedding app)"
    and init: "loader_init loader = None" and chunks: "getChunks loader = fromList xs"
    and prior: "loaderRecord app (getUniqueId loader) = Some P" "0 < P"
  shows "\<exists>st' new.
    addLoader B app loader =
      Inr (\<lparr> entriesAdded = length xs, uniqueId = getUniqueId loader \<rparr>,
           app\<lparr>dbState := st',
               cache := map_option (\<lambda>c. cache_addLoader c (getUniqueId loader) (length xs mod B)) (cache app),
               incrementalHandlers :=
                 (if canIncrementallyLoad loader then incrementalHandlers app @ [getUniqueId loader]
                  else incrementalHandlers app),
               loaders := filter (\<lambda>x. getUniqueId x \<noteq> getUniqueId loader) (loaders app) @ [loader]\<rparr>) \<and>
    stored st' =
      filter (\<lambda>e. metadata e ''uniqueLoaderId'' \<noteq> Some (getUniqueId loader)) (stored (dbState app)) @ new \<and>
    map chunk_of new = formatChunks (getUniqueId loader) 0 xs"
proof -
  let ?uid = "getUniqueId loader"
  from prior obtain c where rec: "cache app = Some c" "c ?uid = Some P" "0 < P"
    by (auto simp: loaderRecord_def split: option.splits)
  from del obtain st1 where
    d: "deleteKeys (vectorDb app) ?uid (dbState app) = Inr (True, st1)" and
    s1: "stored st1 = filter (\<lambda>e. metadata e ''uniqueLoaderId'' \<noteq> Some ?uid) (stored (dbState app))"
    unfolding delete_contract_def by blast
  let ?app1 = "app\<lparr>dbState := st1, cache := Some (cache_deleteLoader c ?uid),
                   loaders := filter (\<lambda>x. getUniqueId x \<noteq> ?uid) (loaders app)\<rparr>"
  have dl: "deleteLoader app ?uid True = Inr (True, ?app1)"
    using d rec(1) by (simp add: deleteLoader_def Let_def)
  have db1: "insert_contract (vectorDb ?app1) stored" and emb1: "embedding_answers (embedding ?app1)"
    using db emb by simp_all
  from batchLoadChunks_contract[OF db1 emb1, of B ?uid xs]
  obtain st' new fc' where
    b: "batchLoadChunks B ?app1 ?uid (fromList xs) = Inr ((length xs, fc'), ?app1\<lparr>dbState := st'\<rparr>)" and
    s: "stored st' = stored (dbState ?app1) @ new" and
    c: "map chunk_of new = formatChunks ?uid 0 xs" and
    l: "length fc' = length xs mod B"
    by blast
  have cc: "cache_addLoader (cache_deleteLoader c ?uid) ?uid (length xs mod B)
            = cache_addLoader c ?uid (length xs mod B)"
    by (simp add: cache_addLoader_def cache_deleteLoader_def)
  have h: "cache_hasLoader c ?uid" "0 < cache_getLoader c ?uid"
    using rec by (simp_all add: cache_hasLoader_def cache_getLoader_def)
  have "addLoader B app loader =
      Inr (\<lparr> entriesAdded = length xs, uniqueId = ?uid \<rparr>,
           app\<lparr>dbState := st',
               cache := map_option (\<lambda>c. cache_addLoader c ?uid (length xs mod B)) (cache app),
               incrementalHandlers :=
                 (if canIncrementallyLoad loader then incrementalHandlers app @ [?uid]
                  else incrementalHandlers app),
               loaders := filter (\<lambda>x. getUniqueId x \<noteq> ?uid) (loaders app) @ [loader]\<rparr>)"
    using init chunks rec(1) h dl b l cc by (simp add: addLoader_def Let_def)
  moreover have "stored st' = filter (\<lambda>e. metadata e ''uniqueLoaderId'' \<noteq> Some ?uid) (stored (dbState app)) @ new"
    using s s1 by simp
  ultimately show ?thesis using c by blast
qed

lemma memoryDb_insert_contract: "insert_contract (memoryDb found) (\<lambda>st. st)"
  by (simp add: insert_contract_def memoryDb_def)

lemma memoryDb_delete_contract: "delete_contract (memoryDb found) (\<lambda>st. st)"
  by (simp add: delete_contract_def memoryDb_def)

lemma fixedEmbeddings_answers: "embedding_answers fixedEmbeddings"
  by (simp add: embedding_answers_def fixedEmbeddings_def)

lemma ids_of_new_entries:
  assumes "map chunk_of new = formatChunks uid 0 xs"
  shows "map (\<lambda>e. metadata e ''id'') new
         = map (\<lambda>j. Some (uid @ ''_'' @ string_of_nat j)) [0 ..< length xs]"
proof -
  have "map (\<lambda>e. metadata e ''id'') new = map (\<lambda>c. metadata c ''id'') (map chunk_of new)"
    by (simp add: chunk_of_def comp_def)
  also have "\<dots> = map (\<lambda>j. Some (getChunkUniqueId uid j)) [0 ..< 0 + length xs]"
    unfolding assms by (rule ids_formatChunks)
  finally show ?thesis by (simp add: getChunkUniqueId_def)
qed

lemma loaderIds_of_new_entries:
  assumes "map chunk_of new = formatChunks uid 0 xs" and "e \<in> set new"
  shows "metadata e ''uniqueLoaderId'' = Some uid"
proof -
  from assms(2) have "chunk_of e \<in> set (map chunk_of new)" by simp
  then have "chunk_of e \<in> set (formatChunks uid 0 xs)" by (simp only: assms(1))
  then have "metadata (chunk_of e) ''uniqueLoaderId'' = Some uid" by (rule loaderIds_formatChunks)
  then show ?thesis by (simp add: chunk_of_def)
qed

lemma length_of_new_entries:
  assumes "map chunk_of new = formatChunks uid 0 xs"
  shows "length new = length xs"
  using arg_cong[OF assms, of length] by (simp add: length_formatChunks)

lemma string_of_nat_digits:
  "string_of_nat 0 = ''0''" "string_of_nat 1 = ''1''" "string_of_nat 2 = ''2''"
  "string_of_nat 12 = ''12''"
  "string_of_nat (Suc 0) = ''1''" "string_of_nat (Suc (Suc 0)) = ''2''"
  by (simp_all add: string_of_nat.simps digit_char_def)

section \<open>Ingestion\<close>

text \<open>
  \<^bold>\<open>C6.\<close> Under the vector-store contract (\<^verbatim>\<open>insertChunks\<close> stores the given entries
  and returns their number) and with an embedding provider that answers, a loader that
  initialises and produces \<open>N\<close> fragments, registered while the cache holds no record
  for its id (or no cache is configured), makes \<^verbatim>\<open>addLoader\<close> return
  \<open>entriesAdded = N\<close>. The orchestrator keeps its vector store, and the store then holds
  what it held before followed by \<open>N\<close> new entries, which carry the page contents of the
  loader's fragments in order and the loader's id: the vector count grows from
  \<open>before\<close> to \<open>before + N\<close>. This holds for every batch size.
\<close>

theorem addLoader_entriesAdded:
  assumes "insert_contract (vectorDb app) stored" and "embedding_answers (embedding app)"
    and "loader_init loader = None" and "getChunks loader = fromList chunks"
    and "loaderRecord app (getUniqueId loader) = None"
  shows "\<exists>before ret app' new.
           getEmbeddingsCount app = Inr before \<and>
           before = length (stored (dbState app)) \<and>
           addLoader DEFAULT_INSERT_BATCH_SIZE app loader = Inr (ret, app') \<and>
           entriesAdded ret = length chunks \<and> uniqueId ret = getUniqueId loader \<and>
           vectorDb app' = vectorDb app \<and>
           stored (dbState app') = stored (dbState app) @ new \<and>
           length new = length chunks \<and>
           map pageContent new = map pageContent chunks \<and>
           list_all (\<lambda>e. metadata e ''uniqueLoaderId'' = Some (getUniqueId loader)) new \<and>
           getEmbeddingsCount app' = Inr (before + length chunks)"
proof -
  have nodel: "loaderRecord app (getUniqueId loader) = None \<or>
      loaderRecord app (getUniqueId loader) = Some 0"
    using assms(5) by simp
  from addLoader_without_deletion[OF assms(1-4) nodel, of DEFAULT_INSERT_BATCH_SIZE]
  obtain st' new app' where
    a: "addLoader DEFAULT_INSERT_BATCH_SIZE app loader =
          Inr (\<lparr> entriesAdded = length chunks, uniqueId = getUniqueId loader \<rparr>, app')" and
    app': "vectorDb app' = vectorDb app" "dbState app' = st'" and
    s: "stored st' = stored (dbState app) @ new" and
    c: "map chunk_of new = formatChunks (getUniqueId loader) 0 chunks"
    by fastforce
  have cnt: "\<And>st. getVectorCount (vectorDb app) st = Inr (length (stored st))"
    using assms(1) by (simp add: insert_contract_def)
  have len: "length new = length chunks"
    by (rule length_of_new_entries[OF c])
  have "map pageContent new = map pageContent (map chunk_of new)"
    by (simp add: chunk_of_def comp_def)
  then have pc: "map pageContent new = map pageContent chunks"
    by (simp only: c pageContents_formatChunks)
  have tagged: "list_all (\<lambda>e. metadata e ''uniqueLoaderId'' = Some (getUniqueId loader)) new"
    unfolding list_all_iff using loaderIds_of_new_entries[OF c] by blast
  have b: "getEmbeddingsCount app = Inr (length (stored (dbState app)))"
    by (simp add: getEmbeddingsCount_def cnt)
  have after: "getEmbeddingsCount app' = Inr (length (stored (dbState app)) + length chunks)"
    by (simp add: getEmbeddingsCount_def app' cnt s len)
  have st: "stored (dbState app') = stored (dbState app) @ new"
    using s by (simp add: app')
  show ?thesis
    apply (rule exI[of _ "length (stored (dbState app))"])
    apply (rule exI[of _ "\<lparr> entriesAdded = length chunks, uniqueId = getUniqueId loader \<rparr>"])
    apply (rule exI[of _ app'])
    apply (rule exI[of _ new])
    using a b after app'(1) st len pc tagged by simp
qed

theorem addLoader_entriesAdded_witness:
  "\<exists>ret app'.
     getEmbeddingsCount (exampleApp [] 2 (Some Map.empty)) = Inr 0 \<and>
     addLoader 2 (exampleApp [] 2 (Some Map.empty))
        (exampleLoader ''L'' [exampleChunk ''a'', exampleChunk ''b'', exampleChunk ''c''] False)
       = Inr (ret, app') \<and>
     entriesAdded ret = 3 \<and>
     vectorDb app' = memoryDb [] \<and>
     map pageContent (dbState app') = [''a'', ''b'', ''c''] \<and>
     getEmbeddingsCount app' = Inr 3"
proof -
  let ?app = "exampleApp [] 2 (Some Map.empty)"
  let ?loader = "exampleLoader ''L'' [exampleChunk ''a'', exampleChunk ''b'', exampleChunk ''c''] False"
  have h1: "insert_contract (vectorDb ?app) (\<lambda>st. st)"
    by (simp add: exampleApp_def memoryDb_insert_contract)
  have h2: "embedding_answers (embedding ?app)"
    by (simp add: exampleApp_def fixedEmbeddings_answers)
  have h3: "loader_init ?loader = None"
    and h4: "getChunks ?loader = fromList [exampleChunk ''a'', exampleChunk ''b'', exampleChunk ''c'']"
    by (simp_all add: exampleLoader_def)
  have h5: "loaderRecord ?app (getUniqueId ?loader) = None"
    by (simp add: loaderRecord_def exampleApp_def)
  from addLoader_entriesAdded[OF h1 h2 h3 h4 h5, of 2]
  obtain before ret app' new where
    b: "getEmbeddingsCount ?app = Inr before" "before = length (dbState ?app)" and
    a: "addLoader 2 ?app ?loader = Inr (ret, app')" and
    e: "entriesAdded ret = length [exampleChunk ''a'', exampleChunk ''b'', exampleChunk ''c'']" and
    v: "vectorDb app' = vectorDb ?app" and
    s: "dbState app' = dbState ?app @ new" and
    pc: "map pageContent new
          = map pageContent [exampleChunk ''a'', exampleChunk ''b'', exampleChunk ''c'']" and
    after: "getEmbeddingsCount app'
          = Inr (before + length [exampleChunk ''a'', exampleChunk ''b'', exampleChunk ''c''])"
    by blast
  have b0: "before = 0" using b(2) by (simp add: exampleApp_def)
  have g1: "getEmbeddingsCount ?app = Inr 0" using b(1) b0 by simp
  have g2: "entriesAdded ret = 3" using e by simp
  have g3: "vectorDb app' = memoryDb []" using v by (simp add: exampleApp_def)
  have g4: "map pageContent (dbState app') = [''a'', ''b'', ''c'']"
    unfolding s using pc by (simp add: exampleApp_def exampleChunk_def)
  have g5: "getEmbeddingsCount app' = Inr 3" using after b0 by simp
  show ?thesis
    by (rule exI[of _ ret], rule exI[of _ app']) (simp only: g1 a g2 g3 g4 g5 simp_thms)
qed

text \<open>
  \<^bold>\<open>C1, at a failing input.\<close> With a batch size of 2, a loader that yields exactly 2
  fragments is ingested completely (\<open>entriesAdded = 2\<close>, 2 vectors stored), and the
  LoaderRecord written to the cache holds the count 0, not 2: \<^verbatim>\<open>batchLoadChunks\<close>
  returns only the fragments of the last, unflushed batch. In general the recorded count
  is \<open>N mod DEFAULT_INSERT_BATCH_SIZE\<close> (lemmas \<open>addLoader_without_deletion\<close> and
  \<open>addLoader_with_deletion\<close>).
\<close>

theorem addLoader_records_last_batch_only:
  "and_then
     (addLoader 2 (exampleApp [] 2 (Some Map.empty))
        (exampleLoader ''L'' [exampleChunk ''a'', exampleChunk ''b''] False))
     (\<lambda>(ret, app'). and_then (getEmbeddingsCount app')
        (\<lambda>stored. Inr (entriesAdded ret, stored, loaderRecord app' ''L'')))
   = Inr (2, 2, Some 0)"
  by (simp add: and_then_def addLoader_def batchLoadChunks_def batchLoadEmbeddings_def embedChunks_def
      exampleApp_def exampleLoader_def exampleChunk_def memoryDb_def fixedEmbeddings_def
      getEmbeddingsCount_def loaderRecord_def cache_addLoader_def cache_hasLoader_def Let_def)

text \<open>
  \<^bold>\<open>C4, as stated, fails.\<close> A loader with incremental capability is registered with
  one fragment (record count \<open>P = 1\<close>); a notification then adds one more fragment
  under the same id, and the record stays at 1 while the store holds 2. Re-registering
  the id with \<open>M = 1\<close> fragment deletes both and inserts one: the count goes from 2 to
  1, a change of \<open>-1\<close>, not \<open>M - P = 0\<close>.
\<close>

theorem reregistration_after_incremental_load:
  "and_then
     (addLoader 10 (exampleApp [] 2 (Some Map.empty)) (exampleLoader ''L'' [exampleChunk ''a''] True))
     (\<lambda>(ret1, app1). and_then
       (emit_incrementalChunkAvailable 10 app1 ''L'' (fromList [exampleChunk ''b'']))
       (\<lambda>app2. and_then (getEmbeddingsCount app2)
         (\<lambda>before. and_then
           (addLoader 10 app2 (exampleLoader ''L'' [exampleChunk ''c''] True))
           (\<lambda>(ret3, app3). and_then (getEmbeddingsCount app3)
             (\<lambda>after. Inr (loaderRecord app2 ''L'', before, entriesAdded ret3, after))))))
   = Inr (Some 1, 2, 1, 1)"
  by (simp add: and_then_def addLoader_def batchLoadChunks_def batchLoadEmbeddings_def embedChunks_def
      emit_incrementalChunkAvailable_def incrementalLoader_def deleteLoader_def
      exampleApp_def exampleLoader_def exampleChunk_def memoryDb_def fixedEmbeddings_def
      getEmbeddingsCount_def loaderRecord_def cache_addLoader_def cache_hasLoader_def
      cache_getLoader_def cache_deleteLoader_def Let_def)

text \<open>
  \<^bold>\<open>C4, amended.\<close> Under the vector-store contract, re-registering a loader id whose
  cache record has a count \<open>P > 0\<close> with \<open>M\<close> new fragments first deletes every stored
  entry tagged with that id (\<open>S\<close> of them, whatever \<open>P\<close> is) and then inserts the \<open>M\<close>
  new ones, all tagged with the id: the vector count changes from \<open>before\<close> to
  \<open>before - S + M\<close>.
\<close>

theorem addLoader_reregistration:
  assumes "insert_contract (vectorDb app) stored" and "delete_contract (vectorDb app) stored"
    and "embedding_answers (embedding app)"
    and "loader_init loader = None" and "getChunks loader = fromList chunks"
    and "loaderRecord app (getUniqueId loader) = Some P" and "0 < P"
  shows "\<exists>before ret app' new.
           getEmbeddingsCount app = Inr before \<and>
           addLoader DEFAULT_INSERT_BATCH_SIZE app loader = Inr (ret, app') \<and>
           entriesAdded ret = length chunks \<and>
           stored (dbState app') =
             filter (\<lambda>e. metadata e ''uniqueLoaderId'' \<noteq> Some (getUniqueId loader)) (stored (dbState app)) @ new \<and>
           length new = length chunks \<and>
           list_all (\<lambda>e. metadata e ''uniqueLoaderId'' = Some (getUniqueId loader)) new \<and>
           getEmbeddingsCount app' =
             Inr (before
                  - length (filter (\<lambda>e. metadata e ''uniqueLoaderId'' = Some (getUniqueId loader))
                             (stored (dbState app)))
                  + length chunks)"
proof -
  let ?uid = "getUniqueId loader"
  let ?old = "stored (dbState app)"
  from addLoader_with_deletion[OF assms, of DEFAULT_INSERT_BATCH_SIZE]
  obtain st' new app' where
    a: "addLoader DEFAULT_INSERT_BATCH_SIZE app loader =
          Inr (\<lparr> entriesAdded = length chunks, uniqueId = ?uid \<rparr>, app')" and
    app': "vectorDb app' = vectorDb app" "dbState app' = st'" and
    s: "stored st' = filter (\<lambda>e. metadata e ''uniqueLoaderId'' \<noteq> Some ?uid) ?old @ new" and
    c: "map chunk_of new = formatChunks ?uid 0 chunks"
    by fastforce
  have cnt: "\<And>st. getVectorCount (vectorDb app) st = Inr (length (stored st))"
    using assms(1) by (simp add: insert_contract_def)
  have b: "getEmbeddingsCount app = Inr (length ?old)"
    by (simp add: getEmbeddingsCount_def cnt)
  have "length (filter (\<lambda>e. metadata e ''uniqueLoaderId'' = Some ?uid) ?old)
        + length (filter (\<lambda>e. metadata e ''uniqueLoaderId'' \<noteq> Some ?uid) ?old) = length ?old"
    by (rule sum_length_filter_compl)
  then have kept: "length (filter (\<lambda>e. metadata e ''uniqueLoaderId'' \<noteq> Some ?uid) ?old)
        = length ?old - length (filter (\<lambda>e. metadata e ''uniqueLoaderId'' = Some ?uid) ?old)"
    by arith
  have after: "getEmbeddingsCount app' =
      Inr (length ?old - length (filter (\<lambda>e. metadata e ''uniqueLoaderId'' = Some ?uid) ?old) + length chunks)"
    by (simp add: getEmbeddingsCount_def app' cnt s kept length_of_new_entries[OF c])
  have tagged: "list_all (\<lambda>e. metadata e ''uniqueLoaderId'' = Some ?uid) new"
    unfolding list_all_iff using loaderIds_of_new_entries[OF c] by blast
  from a b after tagged s app'(2) length_of_new_entries[OF c]
  show ?thesis by fastforce
qed

theorem addLoader_reregistration_witness:
  "\<exists>ret app'.
     getEmbeddingsCount
       ((exampleApp [] 2 (Some [''L'' \<mapsto> 2]))
          \<lparr>dbState := [exampleEntry ''a'' ''L'', exampleEntry ''m'' ''M'', exampleEntry ''b'' ''L'']\<rparr>)
       = Inr 3 \<and>
     addLoader 2
       ((exampleApp [] 2 (Some [''L'' \<mapsto> 2]))
          \<lparr>dbState := [exampleEntry ''a'' ''L'', exampleEntry ''m'' ''M'', exampleEntry ''b'' ''L'']\<rparr>)
       (exampleLoader ''L'' [exampleChunk ''c''] False)
       = Inr (ret, app') \<and>
     entriesAdded ret = 1 \<and> getEmbeddingsCount app' = Inr 2"
proof -
  let ?app = "(exampleApp [] 2 (Some [''L'' \<mapsto> 2]))
          \<lparr>dbState := [exampleEntry ''a'' ''L'', exampleEntry ''m'' ''M'', exampleEntry ''b'' ''L'']\<rparr>"
  let ?loader = "exampleLoader ''L'' [exampleChunk ''c''] False"
  have h1: "insert_contract (vectorDb ?app) (\<lambda>st. st)"
    by (simp add: exampleApp_def memoryDb_insert_contract)
  have h2: "delete_contract (vectorDb ?app) (\<lambda>st. st)"
    by (simp add: exampleApp_def memoryDb_delete_contract)
  have h3: "embedding_answers (embedding ?app)"
    by (simp add: exampleApp_def fixedEmbeddings_answers)
  have h4: "loader_init ?loader = None" and h5: "getChunks ?loader = fromList [exampleChunk ''c'']"
    by (simp_all add: exampleLoader_def)
  have h6: "loaderRecord ?app (getUniqueId ?loader) = Some 2"
    by (simp add: loaderRecord_def exampleApp_def exampleLoader_def)
  have h7: "(0::nat) < 2" by simp
  have b: "getEmbeddingsCount ?app = Inr 3"
    by (simp add: getEmbeddingsCount_def exampleApp_def memoryDb_def)
  have f: "length (filter (\<lambda>e. metadata e ''uniqueLoaderId'' = Some (getUniqueId ?loader)) (dbState ?app)) = 2"
    by (simp add: exampleLoader_def exampleEntry_def)
  from addLoader_reregistration[OF h1 h2 h3 h4 h5 h6 h7, of 2] b f
  show ?thesis by auto
qed

text \<open>
  \<^bold>\<open>C10.\<close> Every run of \<^verbatim>\<open>batchLoadChunks\<close> starts its counter at 0: the entries a
  run stores carry the ids \<open>uid_0, uid_1, \<dots>\<close> in order, whether the run is the initial
  ingestion of \<^verbatim>\<open>addLoader\<close> or a later run of \<^verbatim>\<open>incrementalLoader\<close>. The id at
  position \<open>j\<close> of an incremental run is therefore the id at position \<open>j\<close> of the
  initial ingestion.
\<close>

theorem batchLoadChunks_ids_restart:
  assumes "insert_contract (vectorDb app) stored" and "embedding_answers (embedding app)"
  shows "(\<exists>ret app' new.
            batchLoadChunks DEFAULT_INSERT_BATCH_SIZE app uid (fromList chunks) = Inr (ret, app') \<and>
            stored (dbState app') = stored (dbState app) @ new \<and>
            map (\<lambda>e. metadata e ''id'') new
              = map (\<lambda>j. Some (uid @ ''_'' @ string_of_nat j)) [0 ..< length chunks]) \<and>
         (\<exists>app' new.
            incrementalLoader DEFAULT_INSERT_BATCH_SIZE app uid (fromList chunks) = Inr app' \<and>
            stored (dbState app') = stored (dbState app) @ new \<and>
            map (\<lambda>e. metadata e ''id'') new
              = map (\<lambda>j. Some (uid @ ''_'' @ string_of_nat j)) [0 ..< length chunks]) \<and>
         (loader_init loader = None \<and> getChunks loader = fromList chunks \<and>
          (loaderRecord app (getUniqueId loader) = None \<or> loaderRecord app (getUniqueId loader) = Some 0) \<longrightarrow>
          (\<exists>ret app' new.
            addLoader DEFAULT_INSERT_BATCH_SIZE app loader = Inr (ret, app') \<and>
            vectorDb app' = vectorDb app \<and> embedding app' = embedding app \<and>
            stored (dbState app') = stored (dbState app) @ new \<and>
            map (\<lambda>e. metadata e ''id'') new
              = map (\<lambda>j. Some (getUniqueId loader @ ''_'' @ string_of_nat j)) [0 ..< length chunks]))"
proof (intro conjI impI)
  from batchLoadChunks_contract[OF assms, of DEFAULT_INSERT_BATCH_SIZE uid chunks]
  obtain st' new fc' where
    b: "batchLoadChunks DEFAULT_INSERT_BATCH_SIZE app uid (fromList chunks)
          = Inr ((length chunks, fc'), app\<lparr>dbState := st'\<rparr>)" and
    s: "stored st' = stored (dbState app) @ new" and
    c: "map chunk_of new = formatChunks uid 0 chunks"
    by blast
  note ids = ids_of_new_entries[OF c]
  show "\<exists>ret app' new.
            batchLoadChunks DEFAULT_INSERT_BATCH_SIZE app uid (fromList chunks) = Inr (ret, app') \<and>
            stored (dbState app') = stored (dbState app) @ new \<and>
            map (\<lambda>e. metadata e ''id'') new
              = map (\<lambda>j. Some (uid @ ''_'' @ string_of_nat j)) [0 ..< length chunks]"
    using b s ids by (intro exI[of _ "(length chunks, fc')"] exI[of _ "app\<lparr>dbState := st'\<rparr>"] exI[of _ new]) simp
  have "incrementalLoader DEFAULT_INSERT_BATCH_SIZE app uid (fromList chunks) = Inr (app\<lparr>dbState := st'\<rparr>)"
    using b by (simp add: incrementalLoader_def)
  then show "\<exists>app' new.
            incrementalLoader DEFAULT_INSERT_BATCH_SIZE app uid (fromList chunks) = Inr app' \<and>
            stored (dbState app') = stored (dbState app) @ new \<and>
            map (\<lambda>e. metadata e ''id'') new
              = map (\<lambda>j. Some (uid @ ''_'' @ string_of_nat j)) [0 ..< length chunks]"
    using s ids by (intro exI[of _ "app\<lparr>dbState := st'\<rparr>"] exI[of _ new]) simp
next
  assume h: "loader_init loader = None \<and> getChunks loader = fromList chunks \<and>
          (loaderRecord app (getUniqueId loader) = None \<or> loaderRecord app (getUniqueId loader) = Some 0)"
  then have h1: "loader_init loader = None" and h2: "getChunks loader = fromList chunks"
    and h3: "loaderRecord app (getUniqueId loader) = None \<or> loaderRecord app (getUniqueId loader) = Some 0"
    by blast+
  from addLoader_without_deletion[OF assms h1 h2 h3, of DEFAULT_INSERT_BATCH_SIZE]
  obtain st' new app' ret where
    a: "addLoader DEFAULT_INSERT_BATCH_SIZE app loader = Inr (ret, app')" and
    app': "dbState app' = st'" "vectorDb app' = vectorDb app" "embedding app' = embedding app" and
    s: "stored st' = stored (dbState app) @ new" and
    c: "map chunk_of new = formatChunks (getUniqueId loader) 0 chunks"
    by fastforce
  show "\<exists>ret app' new.
            addLoader DEFAULT_INSERT_BATCH_SIZE app loader = Inr (ret, app') \<and>
            vectorDb app' = vectorDb app \<and> embedding app' = embedding app \<and>
            stored (dbState app') = stored (dbState app) @ new \<and>
            map (\<lambda>e. metadata e ''id'') new
              = map (\<lambda>j. Some (getUniqueId loader @ ''_'' @ string_of_nat j)) [0 ..< length chunks]"
    using a app' s ids_of_new_entries[OF c] by (intro exI[of _ ret] exI[of _ app'] exI[of _ new]) simp
qed

theorem batchLoadChunks_ids_restart_witness:
  "\<exists>ret app1 app2.
     addLoader 2 (exampleApp [] 2 None)
        (exampleLoader ''L'' [exampleChunk ''a'', exampleChunk ''b'', exampleChunk ''c''] True)
       = Inr (ret, app1) \<and>
     map (\<lambda>e. metadata e ''id'') (dbState app1) = [Some ''L_0'', Some ''L_1'', Some ''L_2''] \<and>
     incrementalLoader 2 app1 ''L'' (fromList [exampleChunk ''d'', exampleChunk ''e'']) = Inr app2 \<and>
     map (\<lambda>e. metadata e ''id'') (dbState app2)
       = [Some ''L_0'', Some ''L_1'', Some ''L_2'', Some ''L_0'', Some ''L_1'']"
proof -
  let ?app = "exampleApp [] 2 None :: InsertChunkData list RAGApplication"
  let ?loader = "exampleLoader ''L'' [exampleChunk ''a'', exampleChunk ''b'', exampleChunk ''c''] True"
  have h1: "insert_contract (vectorDb ?app) (\<lambda>st. st)"
    by (simp add: exampleApp_def memoryDb_insert_contract)
  have h2: "embedding_answers (embedding ?app)"
    by (simp add: exampleApp_def fixedEmbeddings_answers)
  have h3: "loader_init ?loader = None \<and>
      getChunks ?loader = fromList [exampleChunk ''a'', exampleChunk ''b'', exampleChunk ''c''] \<and>
      (loaderRecord ?app (getUniqueId ?loader) = None \<or> loaderRecord ?app (getUniqueId ?loader) = Some 0)"
    by (simp add: exampleLoader_def loaderRecord_def exampleApp_def)
  have u: "[0 ..< 3] = [0, 1, 2::nat]" "[0 ..< 2] = [0, 1::nat]"
    by (simp_all add: upt_rec)
  from batchLoadChunks_ids_restart[OF h1 h2, of 2 _ "[exampleChunk ''a'', exampleChunk ''b'', exampleChunk ''c'']" ?loader] h3
  obtain ret app1 new1 where
    a: "addLoader 2 ?app ?loader = Inr (ret, app1)" and
    f1: "vectorDb app1 = vectorDb ?app" "embedding app1 = embedding ?app" and
    s1: "dbState app1 = dbState ?app @ new1" and
    i1: "map (\<lambda>e. metadata e ''id'') new1
          = map (\<lambda>j. Some (getUniqueId ?loader @ ''_'' @ string_of_nat j)) [0 ..< length [exampleChunk ''a'', exampleChunk ''b'', exampleChunk ''c'']]"
    by blast
  have ids1: "map (\<lambda>e. metadata e ''id'') (dbState app1) = [Some ''L_0'', Some ''L_1'', Some ''L_2'']"
    unfolding s1 using i1 by (simp add: exampleApp_def exampleLoader_def u string_of_nat_digits del: One_nat_def)
  have g1: "insert_contract (vectorDb app1) (\<lambda>st. st)" and g2: "embedding_answers (embedding app1)"
    using h1 h2 by (simp_all only: f1)
  from batchLoadChunks_ids_restart[OF g1 g2, of 2 "''L''" "[exampleChunk ''d'', exampleChunk ''e'']"]
  obtain app2 new2 where
    b: "incrementalLoader 2 app1 ''L'' (fromList [exampleChunk ''d'', exampleChunk ''e'']) = Inr app2" and
    s2: "dbState app2 = dbState app1 @ new2" and
    i2: "map (\<lambda>e. metadata e ''id'') new2
          = map (\<lambda>j. Some (''L'' @ ''_'' @ string_of_nat j)) [0 ..< length [exampleChunk ''d'', exampleChunk ''e'']]"
    by blast
  have ids2: "map (\<lambda>e. metadata e ''id'') (dbState app2)
       = [Some ''L_0'', Some ''L_1'', Some ''L_2'', Some ''L_0'', Some ''L_1'']"
    unfolding s2 using i2 ids1 by (simp add: u string_of_nat_digits del: One_nat_def)
  show ?thesis
    by (rule exI[of _ ret], rule exI[of _ app1], rule exI[of _ app2]) (simp only: a ids1 b ids2 simp_thms)
qed

end
